theory Spec2Isabelle
  imports Main
begin

section \<open>JavaScript values and strings\<close>

text \<open>
  The macro handles three kinds of JavaScript values: \<open>undefined\<close>, strings and numbers.
  Numbers only ever arise from \<open>Number(value)\<close> on a string and are only ever printed
  back by a template literal. A number read from a decimal integer literal of magnitude
  below \<open>2^53\<close> is \<open>JNum\<close> and is exact. Any other number (fraction, exponent, radix prefix,
  \<open>Infinity\<close>, or a magnitude that a double cannot hold exactly) is \<open>JNumOther\<close>, carrying
  the trimmed literal it was read from; how it prints is a parameter (\<open>NumberToString\<close>).
  Strings are lists of 8-bit characters.
\<close>

datatype jsval = JUndefined | JNum int | JNumOther string | JStr string

type_synonym jsobj = "(string \<times> jsval) list"

text \<open>Property read \<open>o.k\<close>: a property that was never set reads \<open>undefined\<close>.\<close>

definition obj_get :: "jsobj \<Rightarrow> string \<Rightarrow> jsval" where
  "obj_get ob k = (case map_of ob k of None \<Rightarrow> JUndefined | Some v \<Rightarrow> v)"

text \<open>Property write \<open>o[k] = v\<close>: an existing property is overwritten in place.\<close>

fun obj_set :: "string \<Rightarrow> jsval \<Rightarrow> jsobj \<Rightarrow> jsobj" where
  "obj_set k v [] = [(k, v)]"
| "obj_set k v ((k', v') # ob) =
     (if k' = k then (k, v) # ob else (k', v') # obj_set k v ob)"

text \<open>\<open>s.split(d)\<close> for a one-character separator; \<open>''.split(d)\<close> is \<open>['']\<close>.\<close>

fun split_on :: "char \<Rightarrow> string \<Rightarrow> string list" where
  "split_on d [] = [[]]"
| "split_on d (c # cs) =
     (if c = d then [] # split_on d cs
      else (case split_on d cs of [] \<Rightarrow> [[c]] | x # xs \<Rightarrow> (c # x) # xs))"

text \<open>\<open>s.includes(p)\<close>: \<open>p\<close> occurs in \<open>s\<close> as a contiguous substring.\<close>

fun str_includes :: "string \<Rightarrow> string \<Rightarrow> bool" where
  "str_includes [] p = (p = [])"
| "str_includes (c # cs) p = (take (length p) (c # cs) = p \<or> str_includes cs p)"

text \<open>\<open>s.toLowerCase()\<close> on the ASCII letters.\<close>

definition lower_char :: "char \<Rightarrow> char" where
  "lower_char c =
     (case List.find (\<lambda>p. fst p = c) (zip ''ABCDEFGHIJKLMNOPQRSTUVWXYZ'' ''abcdefghijklmnopqrstuvwxyz'') of
        None \<Rightarrow> c | Some p \<Rightarrow> snd p)"

definition toLowerCase :: "string \<Rightarrow> string" where
  "toLowerCase s = map lower_char s"

subsection \<open>Decimal digits\<close>

definition is_digit :: "char \<Rightarrow> bool" where
  "is_digit c = (c \<in> set ''0123456789'')"

text \<open>The value of a decimal digit: its character code less the code of \<open>0\<close>.\<close>

definition digit_val :: "char \<Rightarrow> int" where
  "digit_val c = of_char c - 48"

definition digit_char :: "int \<Rightarrow> char" where
  "digit_char d = ''0123456789'' ! nat (d mod 10)"

definition int_of_digits :: "string \<Rightarrow> int" where
  "int_of_digits ds = foldl (\<lambda>acc c. 10 * acc + digit_val c) 0 ds"

function show_digits :: "int \<Rightarrow> string" where
  "show_digits n =
     (if n < 10 then [digit_char n] else show_digits (n div 10) @ [digit_char n])"
  by pat_completeness auto
termination
  by (relation "measure nat") simp_all

declare show_digits.simps [simp del]

text \<open>\<open>`${n}`\<close> for an integer \<open>n\<close> of magnitude below \<open>2^53\<close>.\<close>

definition show_int :: "int \<Rightarrow> string" where
  "show_int i = (if i < 0 then CHR ''-'' # show_digits (- i) else show_digits i)"

subsection \<open>\<open>Number(string)\<close> and \<open>isNaN(string)\<close>\<close>

text \<open>The white space that \<open>Number\<close> strips: TAB, LF, VT, FF, CR, SP and NBSP.\<close>

definition is_ws :: "char \<Rightarrow> bool" where
  "is_ws c = (c \<in> set [CHR 0x09, CHR 0x0A, CHR 0x0B, CHR 0x0C, CHR 0x0D, CHR 0x20, CHR 0xA0])"

definition trim :: "string \<Rightarrow> string" where
  "trim s = rev (dropWhile is_ws (rev (dropWhile is_ws s)))"

definition sign_split :: "string \<Rightarrow> bool \<times> string" where
  "sign_split s =
     (case s of [] \<Rightarrow> (False, [])
      | c # cs \<Rightarrow> if c = CHR ''+'' then (False, cs) else if c = CHR ''-'' then (True, cs)
                 else (False, s))"

definition all_digits :: "string \<Rightarrow> bool" where
  "all_digits s = (s \<noteq> [] \<and> list_all is_digit s)"

text \<open>\<open>DecimalDigits . DecimalDigits?\<close>, \<open>. DecimalDigits\<close> or \<open>DecimalDigits\<close>.\<close>

definition decimal_mantissa :: "string \<Rightarrow> bool" where
  "decimal_mantissa m =
     (let i = takeWhile is_digit m; r = dropWhile is_digit m
      in case r of [] \<Rightarrow> i \<noteq> []
         | c # f \<Rightarrow> c = CHR ''.'' \<and> list_all is_digit f \<and> (i \<noteq> [] \<or> f \<noteq> []))"

definition is_exp_char :: "char \<Rightarrow> bool" where
  "is_exp_char c = (c = CHR ''e'' \<or> c = CHR ''E'')"

text \<open>\<open>StrUnsignedDecimalLiteral\<close>: \<open>Infinity\<close>, or a mantissa with an optional exponent part.\<close>

definition unsigned_decimal :: "string \<Rightarrow> bool" where
  "unsigned_decimal b =
     (b = ''Infinity'' \<or>
      (let m = takeWhile (\<lambda>c. \<not> is_exp_char c) b; r = dropWhile (\<lambda>c. \<not> is_exp_char c) b
       in decimal_mantissa m \<and> (case r of [] \<Rightarrow> True | _ # e \<Rightarrow> all_digits (snd (sign_split e)))))"

text \<open>\<open>NonDecimalIntegerLiteral\<close>: \<open>0x\<close>, \<open>0o\<close> or \<open>0b\<close> and at least one digit of that radix; no sign.\<close>

definition radix_literal :: "string \<Rightarrow> bool" where
  "radix_literal t =
     (case t of
        z # x # ds \<Rightarrow>
          z = CHR ''0'' \<and> ds \<noteq> [] \<and>
          ((x \<in> set ''xX'' \<and> list_all (\<lambda>c. c \<in> set ''0123456789abcdefABCDEF'') ds) \<or>
           (x \<in> set ''oO'' \<and> list_all (\<lambda>c. c \<in> set ''01234567'') ds) \<or>
           (x \<in> set ''bB'' \<and> list_all (\<lambda>c. c \<in> set ''01'') ds))
      | _ \<Rightarrow> False)"

datatype numlit = NaN | IntLit int | OtherLit

text \<open>
  \<open>Number(s)\<close> for a string: white space is stripped, the empty string is \<open>0\<close>, a string
  that is no numeric literal is \<open>NaN\<close>.
\<close>

definition StringToNumber :: "string \<Rightarrow> numlit" where
  "StringToNumber s =
     (let t = trim s in
      if t = [] then IntLit 0
      else let neg = fst (sign_split t); b = snd (sign_split t) in
        if all_digits b \<and> int_of_digits b < 2 ^ 53
        then IntLit (if neg then - int_of_digits b else int_of_digits b)
        else if radix_literal t \<or> unsigned_decimal b then OtherLit
        else NaN)"

text \<open>\<open>isNaN(value) ? value : Number(value)\<close>; \<open>isNaN(undefined)\<close> is true.\<close>

definition coerce_value :: "string option \<Rightarrow> jsval" where
  "coerce_value value =
     (case value of None \<Rightarrow> JUndefined
      | Some v \<Rightarrow> (case StringToNumber v of NaN \<Rightarrow> JStr v | IntLit n \<Rightarrow> JNum n
                   | OtherLit \<Rightarrow> JNumOther (trim v)))"

text \<open>\<open>`${v}`\<close>: the string a template literal inserts for a value.\<close>

definition ToString :: "(string \<Rightarrow> string) \<Rightarrow> jsval \<Rightarrow> string" where
  "ToString NumberToString v =
     (case v of JUndefined \<Rightarrow> ''undefined'' | JNum n \<Rightarrow> show_int n
      | JNumOther l \<Rightarrow> NumberToString l | JStr s \<Rightarrow> s)"

section \<open>The selection encoding\<close>

definition not_sep :: "char \<Rightarrow> bool" where
  "not_sep c = (c \<noteq> CHR ''~'' \<and> c \<noteq> CHR '':'')"

text \<open>
  The tail \<open>([^~:]+)(?:~|$)+\<close> of the pattern, tried right after a colon: the longest run
  of non-separators must be non-empty and end at a \<open>~\<close> or at the end of the input.
\<close>

definition value_then_end :: "string \<Rightarrow> bool" where
  "value_then_end cs =
     (takeWhile not_sep cs \<noteq> [] \<and>
      (case dropWhile not_sep cs of [] \<Rightarrow> True | c # _ \<Rightarrow> c = CHR ''~''))"

text \<open>
  \<open>/(?:([^~:]+):([^~:]+))(?:~|$)+/g.test(data)\<close>: some colon has a non-separator just
  before it and the tail pattern after it. \<open>prev\<close> tells whether the character before the
  current position is a non-separator.
\<close>

fun regex_scan :: "bool \<Rightarrow> string \<Rightarrow> bool" where
  "regex_scan prev [] = False"
| "regex_scan prev (c # cs) =
     ((c = CHR '':'' \<and> prev \<and> value_then_end cs) \<or> regex_scan (not_sep c) cs)"

definition regex_test :: "string \<Rightarrow> bool" where
  "regex_test data = regex_scan False data"

text \<open>One round of the \<open>forEach\<close>: \<open>const [key, value] = element.split(':')\<close>.\<close>

definition set_pair :: "jsobj \<Rightarrow> string \<Rightarrow> jsobj" where
  "set_pair response element =
     (case split_on (CHR '':'') element of
        [] \<Rightarrow> response
      | [key] \<Rightarrow> obj_set key (coerce_value None) response
      | key # value # _ \<Rightarrow> obj_set key (coerce_value (Some value)) response)"

definition parseKeyValuePairs :: "string \<Rightarrow> jsobj" where
  "parseKeyValuePairs data =
     (if \<not> regex_test data then [(''Type'', JStr ''Error'')]
      else foldl set_pair [] (split_on (CHR ''~'') data))"

text \<open>
  The encoder: the template literals of the \<open>Manual\<close> branch of \<open>WidgetAction\<close>, which
  rebuild the widget value from a parsed selection. Any other \<open>Type\<close> leaves \<open>value\<close>
  at the empty string.
\<close>

definition encodeSelection :: "(string \<Rightarrow> string) \<Rightarrow> jsobj \<Rightarrow> string" where
  "encodeSelection nts sel =
     (if obj_get sel ''Type'' = JStr ''Automatic''
      then ''Type:Automatic~Feature:'' @ ToString nts (obj_get sel ''Feature'')
      else if obj_get sel ''Type'' = JStr ''Preset''
      then ''Type:Preset~CameraId:'' @ ToString nts (obj_get sel ''CameraId'')
           @ ''~PresetId:'' @ ToString nts (obj_get sel ''PresetId'')
           @ ''~PresetName:'' @ ToString nts (obj_get sel ''PresetName'')
      else '''')"

section \<open>The settle monitor\<close>

text \<open>
  A position event of \<open>xStatus Cameras Camera[n] Position\<close>, destructured as
  \<open>{ Pan, Tilt, Zoom }\<close>. The components are numbers; a component the event does not
  carry is \<open>undefined\<close> (\<open>None\<close>).
\<close>

record position_event =
  Pan :: "int option"
  Tilt :: "int option"
  Zoom :: "int option"

text \<open>\<open>!x\<close> for such a component: \<open>undefined\<close> and \<open>0\<close> are falsy.\<close>

definition falsy :: "int option \<Rightarrow> bool" where
  "falsy x = (x = None \<or> x = Some 0)"

definition no_movement :: "position_event \<Rightarrow> bool" where
  "no_movement ev = ((falsy (Pan ev) \<and> falsy (Tilt ev)) \<and> falsy (Zoom ev))"

definition failsafeDebounceTime_for_MainSourceSetOnCameraRampStop :: nat where
  "failsafeDebounceTime_for_MainSourceSetOnCameraRampStop = 2500"

definition debounce_length :: nat where
  "debounce_length = 250"

text \<open>\<open>`Monitor Timed Out`\<close> and \<open>`Camera [${cameraId}] Stopped`\<close>.\<close>

datatype resolution = Monitor_Timed_Out | Camera_Stopped

text \<open>
  The state of one call of \<open>monitorCameraStoppedPosition\<close>. Time is counted in
  milliseconds from the call. A timer is the time at which it fires, \<open>None\<close> once it
  was cleared or has fired. \<open>subscribed\<close> holds while \<open>cameraPositionSubsription\<close> is
  still the live unsubscribe function, \<open>unsubscribe_calls\<close> counts how often the
  subscription was torn down, \<open>settled\<close> is the value the promise resolved with.
\<close>

record monitor =
  failsafeDebounce_run :: "nat option"
  debounce_run :: "nat option"
  subscribed :: bool
  unsubscribe_calls :: nat
  settled :: "resolution option"

text \<open>\<open>resolve(r)\<close>: a promise keeps the first value it was resolved with.\<close>

definition resolve :: "resolution \<Rightarrow> monitor \<Rightarrow> monitor" where
  "resolve r m = m\<lparr>settled := (case settled m of None \<Rightarrow> Some r | Some r' \<Rightarrow> Some r')\<rparr>"

text \<open>The state right after \<open>new Promise(...)\<close> has run its executor.\<close>

definition monitor_start :: monitor where
  "monitor_start =
     \<lparr>failsafeDebounce_run = Some failsafeDebounceTime_for_MainSourceSetOnCameraRampStop,
      debounce_run = None, subscribed = True, unsubscribe_calls = 0, settled = None\<rparr>"

text \<open>The callback of the failsafe timer.\<close>

definition failsafe_fires :: "monitor \<Rightarrow> monitor" where
  "failsafe_fires m =
     resolve Monitor_Timed_Out (m\<lparr>failsafeDebounce_run := None, debounce_run := None\<rparr>)"

text \<open>
  The callback of the debounce timer: it clears the failsafe timer, calls
  \<open>cameraPositionSubsription\<close>, replaces it by a no-op and resolves.
\<close>

definition debounce_fires :: "monitor \<Rightarrow> monitor" where
  "debounce_fires m =
     resolve Camera_Stopped
       (m\<lparr>debounce_run := None, failsafeDebounce_run := None, subscribed := False,
          unsubscribe_calls := (if subscribed m then Suc (unsubscribe_calls m)
                                else unsubscribe_calls m)\<rparr>)"

text \<open>The position listener, called only while the subscription is live.\<close>

definition on_position :: "nat \<Rightarrow> monitor \<Rightarrow> position_event \<Rightarrow> monitor" where
  "on_position now m ev =
     (if \<not> subscribed m then m
      else if no_movement ev then m
      else m\<lparr>debounce_run := Some (now + debounce_length)\<rparr>)"

text \<open>
  One millisecond: the timers due now fire (the failsafe timer, created first, before the
  debounce timer), then the events of this millisecond reach the listener.
\<close>

definition fire_timers :: "nat \<Rightarrow> monitor \<Rightarrow> monitor" where
  "fire_timers now m =
     (let m1 = (if failsafeDebounce_run m = Some now then failsafe_fires m else m)
      in if debounce_run m1 = Some now then debounce_fires m1 else m1)"

definition monitor_step :: "(nat \<Rightarrow> position_event list) \<Rightarrow> nat \<Rightarrow> monitor \<Rightarrow> monitor" where
  "monitor_step events now m = foldl (on_position now) (fire_timers now m) (events now)"

text \<open>The monitor after the milliseconds \<open>0, ..., t\<close> of the event stream.\<close>

primrec monitor_at :: "(nat \<Rightarrow> position_event list) \<Rightarrow> nat \<Rightarrow> monitor" where
  "monitor_at events 0 = monitor_step events 0 monitor_start"
| "monitor_at events (Suc t) = monitor_step events (Suc t) (monitor_at events t)"

text \<open>
  What \<open>await monitorCameraStoppedPosition(cameraId)\<close> yields: the value the promise has
  resolved with once the failsafe time has passed, \<open>None\<close> if it is still pending then.
\<close>

definition monitorCameraStoppedPosition :: "(nat \<Rightarrow> position_event list) \<Rightarrow> resolution option" where
  "monitorCameraStoppedPosition events =
     settled (monitor_at events failsafeDebounceTime_for_MainSourceSetOnCameraRampStop)"

section \<open>Commands, effects and the environment\<close>

text \<open>The \<open>xapi\<close> commands the macro issues.\<close>

datatype xcmd =
    SpeakerTrack_Deactivate
  | SpeakerTrack_Activate
  | Frames_Deactivate
  | Frames_Activate
  | PresenterTrack_Set string
  | Preset_Activate jsval
  | Preset_List
  | Preset_Show int
  | SetMainVideoSource jsval
  | Widget_SetValue string
  | Widget_UnsetValue
  | Prompt_Display jsval

datatype level = Debug | Info | Log | Warn | Error

text \<open>What a handler does to the outside, in order: commands issued and console lines.\<close>

datatype effect = Call xcmd | Console level string

text \<open>An entry of \<open>xCommand Camera Preset List\<close>.\<close>

record preset =
  CameraId :: int
  PresetId :: int
  Name :: string
  DefaultPosition :: string

text \<open>
  The environment of one handler run: the feature switch of the \<open>config\<close> object that the
  command sequences read, which commands the device rejects, what the preset catalog
  answers, the position events of each camera (by milliseconds since the subscription),
  and how the runtime prints a number that is no small integer.
\<close>

record env =
  MainSourceSetOnCameraRampStop :: bool
  rejects :: "xcmd \<Rightarrow> bool"
  Preset_List_result :: "preset list"
  Preset_Show_Name :: "int \<Rightarrow> string"
  Position_events :: "jsval \<Rightarrow> nat \<Rightarrow> position_event list"
  NumberToString :: "string \<Rightarrow> string"

text \<open>
  The mutable globals of the macro. \<open>presetPositioningBypassHandler\<close> is the pending
  timeout, as the milliseconds left until it fires (\<open>None\<close>: cleared, fired or never set).
  \<open>lastPresetSelection\<close> starts as the empty string, whose properties all read
  \<open>undefined\<close>: the empty object here. \<open>ManualPrompt_Dismiss\<close> is the \<open>Dismiss\<close> entry of
  \<open>config.UserInterface.Panel.Text.Page.ManualPrompt\<close>, which the \<open>Manual\<close> branch deletes.
\<close>

record macro_state =
  presetPositioningBypass :: bool
  presetPositioningBypassHandler :: "nat option"
  lastPresetSelection :: jsobj
  availableCameraPresets :: "preset list"
  ManualPrompt_Dismiss :: jsval

definition initial_state :: macro_state where
  "initial_state =
     \<lparr>presetPositioningBypass = False, presetPositioningBypassHandler = None,
      lastPresetSelection = [], availableCameraPresets = [],
      ManualPrompt_Dismiss = JStr ''Dismiss''\<rparr>"

text \<open>How an \<open>async\<close> function ends: it returns, it throws, or it never gets past an \<open>await\<close>.\<close>

datatype failure = Unable_to_set_Camera_Preset | Command_rejected xcmd

datatype completion = Fulfilled | Rejected failure | Pending

text \<open>\<open>d\<close> milliseconds pass with no handler running: a due timeout closes the gate.\<close>

definition elapse :: "nat \<Rightarrow> macro_state \<Rightarrow> macro_state" where
  "elapse d st =
     (case presetPositioningBypassHandler st of
        None \<Rightarrow> st
      | Some k \<Rightarrow>
          if k \<le> d then st\<lparr>presetPositioningBypass := False, presetPositioningBypassHandler := None\<rparr>
          else st\<lparr>presetPositioningBypassHandler := Some (k - d)\<rparr>)"

text \<open>\<open>clearTimeout(presetPositioningBypassHandler); presetPositioningBypass = true;\<close>\<close>

definition open_gate :: "macro_state \<Rightarrow> macro_state" where
  "open_gate st = st\<lparr>presetPositioningBypassHandler := None, presetPositioningBypass := True\<rparr>"

text \<open>\<open>presetPositioningBypassHandler = setTimeout(() => { presetPositioningBypass = false }, failsafe + extra)\<close>\<close>

definition schedule_close :: "nat \<Rightarrow> macro_state \<Rightarrow> macro_state" where
  "schedule_close extra st =
     st\<lparr>presetPositioningBypassHandler :=
          Some (failsafeDebounceTime_for_MainSourceSetOnCameraRampStop + extra)\<rparr>"

text \<open>\<open>await cmd.catch(e => handleError(e, msg, 'debug'))\<close>: a rejection is logged and dropped.\<close>

definition best_effort :: "env \<Rightarrow> xcmd \<Rightarrow> string \<Rightarrow> effect list" where
  "best_effort dev c msg = Call c # (if rejects dev c then [Console Debug msg] else [])"

text \<open>The three deactivations that open both activation sequences.\<close>

definition deactivate_tracking :: "env \<Rightarrow> string \<Rightarrow> effect list" where
  "deactivate_tracking dev cause =
     best_effort dev SpeakerTrack_Deactivate (''Failed to Deactivate Speakertrack. Cause: '' @ cause)
     @ best_effort dev Frames_Deactivate (''Failed to Deactivate Frames. Cause: '' @ cause)
     @ best_effort dev (PresenterTrack_Set ''Off'') (''Failed to Deactivate Presentertrack. Cause: '' @ cause)"

text \<open>
  The part both activation sequences share once the preset command is out: the optional
  wait for the camera to stop, the switch of the main source, the final log line and the
  timeout that closes the gate \<open>extra\<close> milliseconds after the failsafe time. \<open>done_msg\<close>
  is the text of the log line.
\<close>

definition settle_and_switch ::
  "env \<Rightarrow> jsval \<Rightarrow> string \<Rightarrow> nat \<Rightarrow> macro_state \<Rightarrow> effect list
     \<Rightarrow> completion \<times> macro_state \<times> effect list" where
  "settle_and_switch dev cameraId done_msg extra st es =
     (let waited =
            (if MainSourceSetOnCameraRampStop dev
             then (case monitorCameraStoppedPosition (Position_events dev cameraId) of
                     None \<Rightarrow> None
                   | Some r \<Rightarrow> Some [Console Debug ''Waiting for Camera Position to Set'',
                                     Console Debug ''Camera Position Monitoring Stopped''])
             else Some [])
      in case waited of
           None \<Rightarrow> (Pending, st, es @ [Console Debug ''Waiting for Camera Position to Set''])
         | Some ws \<Rightarrow>
             let es1 = es @ ws @ [Console Debug ''Setting MainSource'', Call (SetMainVideoSource cameraId)]
             in if rejects dev (SetMainVideoSource cameraId)
                then (Rejected (Command_rejected (SetMainVideoSource cameraId)), st, es1)
                else (Fulfilled, schedule_close extra st, es1 @ [Console Log done_msg]))"

section \<open>The command sequencer\<close>

text \<open>
  \<open>activateCameraPreset(presetInfo, cause)\<close>. The check \<open>== undefined\<close> comes after the gate
  was opened and the deactivations were issued; its \<open>throw\<close> leaves the function at once.
  \<open>Camera.Preset.Activate\<close> is not awaited.
\<close>

definition activateCameraPreset ::
  "env \<Rightarrow> jsobj \<Rightarrow> string \<Rightarrow> macro_state \<Rightarrow> completion \<times> macro_state \<times> effect list" where
  "activateCameraPreset dev presetInfo cause st =
     (let st1 = open_gate st;
          es = deactivate_tracking dev cause
      in if obj_get presetInfo ''CameraId'' = JUndefined \<or> obj_get presetInfo ''PresetId'' = JUndefined
         then (Rejected Unable_to_set_Camera_Preset, st1, es)
         else settle_and_switch dev (obj_get presetInfo ''CameraId'') ''Camera Preset Activated'' 500 st1
                (es @ [Console Debug ''Setting Preset'',
                       Call (Preset_Activate (obj_get presetInfo ''PresetId''))]))"

text \<open>The \<open>for\<close> loop of \<open>activateDefaultCameraPreset\<close> stops at the first default preset.\<close>

fun first_default :: "preset list \<Rightarrow> preset option" where
  "first_default [] = None"
| "first_default (p # ps) =
     (if toLowerCase (DefaultPosition p) = ''true'' then Some p else first_default ps)"

text \<open>
  \<open>activateDefaultCameraPreset(cause)\<close>. Here \<open>Camera.Preset.List\<close> and
  \<open>Camera.Preset.Activate\<close> are awaited, so a rejection of either throws.
\<close>

definition activateDefaultCameraPreset ::
  "env \<Rightarrow> string \<Rightarrow> macro_state \<Rightarrow> completion \<times> macro_state \<times> effect list" where
  "activateDefaultCameraPreset dev cause st =
     (let st1 = open_gate st;
          es = deactivate_tracking dev cause @ [Call Preset_List]
      in if rejects dev Preset_List then (Rejected (Command_rejected Preset_List), st1, es)
         else let st2 = st1\<lparr>availableCameraPresets := Preset_List_result dev\<rparr>
           in case first_default (availableCameraPresets st2) of
                None \<Rightarrow>
                  (Fulfilled, schedule_close 100 st2,
                   es @ [Console Warn ''Unable to find Default Camera Preset''])
              | Some p \<Rightarrow>
                  let es1 = es @ [Console Debug ''Default Camera Preset Found, setting preset position'',
                                  Call (Preset_Activate (JNum (PresetId p)))]
                  in if rejects dev (Preset_Activate (JNum (PresetId p)))
                     then (Rejected (Command_rejected (Preset_Activate (JNum (PresetId p)))), st2, es1)
                     else settle_and_switch dev (JNum (CameraId p)) ''Default Camera Preset Activated''
                            100 st2 es1)"

section \<open>The selection reconciler\<close>

definition widget_id :: string where
  "widget_id = ''camPresets~PresetList~Presets''"

text \<open>
  \<open>SetValue({...}).catch(e => { UnsetValue({...}); handleError(e, msg, lvl) })\<close>: the
  push, and on its rejection the unset and the log line.
\<close>

definition set_value_or_unset :: "env \<Rightarrow> string \<Rightarrow> level \<Rightarrow> string \<Rightarrow> effect list" where
  "set_value_or_unset dev v lvl msg =
     Call (Widget_SetValue v)
     # (if rejects dev (Widget_SetValue v) then [Call Widget_UnsetValue, Console lvl msg] else [])"

text \<open>\<open>SetValue({...}).catch(e => handleError(e, msg, 'debug'))\<close>: the rejection is only logged.\<close>

definition set_value_or_log :: "env \<Rightarrow> string \<Rightarrow> string \<Rightarrow> effect list" where
  "set_value_or_log dev v msg =
     Call (Widget_SetValue v)
     # (if rejects dev (Widget_SetValue v) then [Console Debug msg] else [])"

text \<open>
  Awaited commands in a row inside \<open>try\<close>: the first rejection throws, the commands after
  it are not issued. The result tells whether one was rejected.
\<close>

fun await_all :: "env \<Rightarrow> xcmd list \<Rightarrow> effect list \<times> bool" where
  "await_all dev [] = ([], False)"
| "await_all dev (c # cs) =
     (if rejects dev c then ([Call c], True)
      else (Call c # fst (await_all dev cs), snd (await_all dev cs)))"

text \<open>The three commands of a tracking feature, in the order of the inner \<open>switch\<close>.\<close>

definition tracking_commands :: "string \<Rightarrow> xcmd list" where
  "tracking_commands feature =
     (if feature = ''Presenter''
      then [PresenterTrack_Set ''Follow'', SpeakerTrack_Deactivate, Frames_Deactivate]
      else if feature = ''Speaker''
      then [PresenterTrack_Set ''Off'', SpeakerTrack_Activate, Frames_Deactivate]
      else if feature = ''Frames''
      then [PresenterTrack_Set ''Off'', SpeakerTrack_Activate, Frames_Activate]
      else [])"

definition manual_key :: string where
  "manual_key = ''Type:Automatic~Feature:Manual''"

text \<open>
  \<open>case 'Automatic'\<close> of the widget handler. The \<open>Manual\<close> branch shows the prompt (its
  \<open>Option.1\<close> is the \<open>Dismiss\<close> text, which is then deleted from the config object) and
  sets the widget back to the encoding of \<open>lastPresetSelection\<close>. The \<open>catch\<close> of the
  \<open>try\<close> unsets the widget. The gate timeout is set after the \<open>try\<close>, on every path.
\<close>

definition automatic_selected ::
  "env \<Rightarrow> jsobj \<Rightarrow> macro_state \<Rightarrow> completion \<times> macro_state \<times> effect list" where
  "automatic_selected dev data st =
     (let st1 = open_gate st;
          feature = obj_get data ''Feature'';
          es = (if feature \<noteq> JStr ''Manual'' then [Console Log ''Activating tracking''] else [])
      in if feature = JStr ''Manual''
         then (Fulfilled,
               schedule_close 100 (st1\<lparr>ManualPrompt_Dismiss := JUndefined\<rparr>),
               es @ [Call (Prompt_Display (ManualPrompt_Dismiss st1)),
                     Console Log ''Manual Selection detected, prompting user on Manual Control'']
                  @ set_value_or_unset dev
                      (encodeSelection (NumberToString dev) (lastPresetSelection st1)) Debug
                      ''Failed to Set Widget Value. Cause: WidgetAction>data.Feature Manual'')
         else (case feature of
                 JStr f \<Rightarrow>
                   (Fulfilled, schedule_close 100 st1,
                    es @ fst (await_all dev (tracking_commands f))
                       @ (if snd (await_all dev (tracking_commands f))
                          then [Call Widget_UnsetValue, Console Error ''Failed to activate tracking'']
                          else []))
               | _ \<Rightarrow> (Fulfilled, schedule_close 100 st1, es)))"

text \<open>The console line of \<open>parseKeyValuePairs\<close> on a string it cannot parse.\<close>

definition parse_error_log :: "string \<Rightarrow> effect list" where
  "parse_error_log data =
     (if \<not> regex_test data then [Console Error ''Unable to parse data key value pair''] else [])"

text \<open>
  The listener of \<open>xEvent UserInterface Extensions Widget Action\<close>. The payload is parsed
  and, unless the raw payload contains \<open>Manual\<close>, stored in \<open>lastPresetSelection\<close>; only
  then the \<open>switch\<close> on \<open>data.Type\<close> runs. \<open>activateCameraPreset(data)\<close> gets no cause.
\<close>

definition WidgetAction ::
  "env \<Rightarrow> string \<Rightarrow> string \<Rightarrow> string \<Rightarrow> macro_state \<Rightarrow> completion \<times> macro_state \<times> effect list" where
  "WidgetAction dev WidgetId Type Value st =
     (if Type = ''released'' \<and> WidgetId = widget_id
      then let data = parseKeyValuePairs Value;
               st1 = (if \<not> str_includes Value ''Manual'' then st\<lparr>lastPresetSelection := data\<rparr> else st)
        in if obj_get data ''Type'' = JStr ''Automatic''
           then (case automatic_selected dev data st1 of
                   (c, st2, es) \<Rightarrow> (c, st2, parse_error_log Value @ es))
           else if obj_get data ''Type'' = JStr ''Preset''
           then (case activateCameraPreset dev data ''undefined'' st1 of
                   (c, st2, es) \<Rightarrow> (c, st2, parse_error_log Value @ es))
           else (Fulfilled, st1, parse_error_log Value)
      else (Fulfilled, st, []))"

text \<open>
  The listener of \<open>xEvent CameraPresetActivated\<close>. \<open>Camera.Preset.Show\<close> is awaited
  between opening the gate and setting its timeout.
\<close>

definition CameraPresetActivated ::
  "env \<Rightarrow> int \<Rightarrow> int \<Rightarrow> macro_state \<Rightarrow> completion \<times> macro_state \<times> effect list" where
  "CameraPresetActivated dev presetId cameraId st =
     (let st1 = open_gate st
      in if rejects dev (Preset_Show presetId)
         then (Rejected (Command_rejected (Preset_Show presetId)), st1, [Call (Preset_Show presetId)])
         else (Fulfilled, schedule_close 500 st1,
               Call (Preset_Show presetId)
               # set_value_or_log dev
                   (''Type:Preset~CameraId:'' @ show_int cameraId @ ''~PresetId:'' @ show_int presetId
                    @ ''~PresetName:'' @ Preset_Show_Name dev presetId)
                   ''Failed to Set Preset Widget Value on External Preset Selection''))"

text \<open>
  The three tracking status listeners that \<open>init\<close> adds: \<open>element\<close> is the feature,
  \<open>engaged\<close> the status word that triggers the push, \<open>msg\<close> the text logged when the
  push is rejected.
\<close>

definition tracking_status ::
  "string \<Rightarrow> string \<Rightarrow> string \<Rightarrow> env \<Rightarrow> string \<Rightarrow> macro_state \<Rightarrow> macro_state \<times> effect list" where
  "tracking_status element engaged msg dev event st =
     (if toLowerCase event = engaged
      then (schedule_close 500 (open_gate st),
            set_value_or_log dev (''Type:Automatic~Feature:'' @ element) msg)
      else (st, []))"

definition CamerasPresenterTrackStatus :: "env \<Rightarrow> string \<Rightarrow> macro_state \<Rightarrow> macro_state \<times> effect list" where
  "CamerasPresenterTrackStatus =
     tracking_status ''Presenter'' ''follow''
       ''Failed to Set Widget Value. Cause: PresenterTrack.Status Subscription''"

definition CamerasSpeakerTrackStatus :: "env \<Rightarrow> string \<Rightarrow> macro_state \<Rightarrow> macro_state \<times> effect list" where
  "CamerasSpeakerTrackStatus =
     tracking_status ''Speaker'' ''active''
       ''Failed to Set Widget Value. Cause: SpeakerTrack.Status Subscription''"

definition CamerasSpeakerTrackFramesStatus :: "env \<Rightarrow> string \<Rightarrow> macro_state \<Rightarrow> macro_state \<times> effect list" where
  "CamerasSpeakerTrackFramesStatus =
     tracking_status ''Frames'' ''active''
       ''Failed to Set Widget Value. Cause: SpeakerTrack.Frames.Status Subscription''"

text \<open>
  The listener of \<open>xStatus Cameras Camera[*] Position\<close>: with the gate inactive, an event
  with a truthy component records \<open>Manual\<close> and pushes it to the widget.
\<close>

definition manual_selection :: jsobj where
  "manual_selection = [(''Type'', JStr ''Automatic''), (''Feature'', JStr ''Manual'')]"

definition CameraPosition :: "env \<Rightarrow> position_event \<Rightarrow> macro_state \<Rightarrow> macro_state \<times> effect list" where
  "CameraPosition dev ev st =
     (if \<not> presetPositioningBypass st
      then (if \<not> no_movement ev
            then (st\<lparr>lastPresetSelection := manual_selection\<rparr>,
                  set_value_or_unset dev manual_key Error
                    ''Failed to Set Widget Value. Cause: CameraPosition change'')
            else (st, []))
      else (st, []))"

section \<open>Event sequences\<close>

text \<open>
  The events that reach the reconciler, each with the environment it runs in, and the
  passing of time between them. A handler run is one step: handlers run one after the
  other, and nothing else runs while one of them awaits a command.
\<close>

datatype event =
    Widget env string string string
  | Position env position_event
  | Wait nat

fun dispatch :: "event \<Rightarrow> macro_state \<Rightarrow> macro_state \<times> effect list" where
  "dispatch (Widget dev w t v) st = (case WidgetAction dev w t v st of (c, st1, es) \<Rightarrow> (st1, es))"
| "dispatch (Position dev ev) st = CameraPosition dev ev st"
| "dispatch (Wait d) st = (elapse d st, [])"

fun run_events :: "event list \<Rightarrow> macro_state \<Rightarrow> macro_state \<times> effect list" where
  "run_events [] st = (st, [])"
| "run_events (e # evs) st =
     (case dispatch e st of
        (st1, es1) \<Rightarrow> (case run_events evs st1 of (st2, es2) \<Rightarrow> (st2, es1 @ es2)))"

section \<open>The keys of the widget\<close>

text \<open>
  The \<open><Key>\<close> entries that \<open>buildUserInterface\<close> writes into the value space of the group
  button, and so the payloads the widget sends: one per tracking feature (and \<open>Manual\<close>)
  and one per preset of the catalog.
\<close>

definition tracking_key :: "string \<Rightarrow> string" where
  "tracking_key feature = ''Type:Automatic~Feature:'' @ feature"

definition preset_key :: "preset \<Rightarrow> string" where
  "preset_key p =
     ''Type:Preset~CameraId:'' @ show_int (CameraId p) @ ''~PresetId:'' @ show_int (PresetId p)
     @ ''~PresetName:'' @ Name p"

section \<open>Predicates of the statements\<close>

text \<open>No event of the list shows movement.\<close>

definition quiet :: "position_event list \<Rightarrow> bool" where
  "quiet evs = list_all no_movement evs"

text \<open>
  The monitor before it resolves: both outcomes open, the subscription live, the failsafe
  timer pending, a debounce timer, if any, due later than \<open>now\<close>.
\<close>

definition waiting :: "nat \<Rightarrow> monitor \<Rightarrow> bool" where
  "waiting now m =
     (settled m = None \<and> subscribed m \<and> unsubscribe_calls m = 0 \<and>
      failsafeDebounce_run m = Some failsafeDebounceTime_for_MainSourceSetOnCameraRampStop \<and>
      (case debounce_run m of None \<Rightarrow> True | Some d \<Rightarrow> now < d))"

text \<open>The same with the debounce timer due at \<open>due\<close>.\<close>

definition armed :: "nat \<Rightarrow> monitor \<Rightarrow> bool" where
  "armed due m =
     (settled m = None \<and> subscribed m \<and> unsubscribe_calls m = 0 \<and>
      failsafeDebounce_run m = Some failsafeDebounceTime_for_MainSourceSetOnCameraRampStop \<and>
      debounce_run m = Some due)"

text \<open>The monitor after the debounce timer has fired first.\<close>

definition stopped :: monitor where
  "stopped =
     \<lparr>failsafeDebounce_run = None, debounce_run = None, subscribed = False,
      unsubscribe_calls = Suc 0, settled = Some Camera_Stopped\<rparr>"

text \<open>The monitor after the failsafe timer has fired first, with no movement since.\<close>

definition timed_out :: monitor where
  "timed_out =
     \<lparr>failsafeDebounce_run = None, debounce_run = None, subscribed = True,
      unsubscribe_calls = 0, settled = Some Monitor_Timed_Out\<rparr>"


fun is_position :: "event \<Rightarrow> bool" where
  "is_position (Position dev ev) = True"
| "is_position (Widget dev w t v) = False"
| "is_position (Wait d) = False"

fun is_widget :: "event \<Rightarrow> bool" where
  "is_widget (Widget dev w t v) = True"
| "is_widget (Position dev ev) = False"
| "is_widget (Wait d) = False"



section \<open>Example inputs\<close>

definition room :: preset where
  "room = \<lparr>CameraId = 2, PresetId = 3, Name = ''Room'', DefaultPosition = ''False''\<rparr>"

definition preset_007 :: preset where
  "preset_007 = \<lparr>CameraId = 2, PresetId = 3, Name = ''007'', DefaultPosition = ''False''\<rparr>"

definition example_env :: env where
  "example_env =
     \<lparr>MainSourceSetOnCameraRampStop = True, rejects = (\<lambda>c. False), Preset_List_result = [room],
      Preset_Show_Name = (\<lambda>i. ''Room''), Position_events = (\<lambda>c t. []),
      NumberToString = (\<lambda>l. ''Infinity'')\<rparr>"

definition widget_rejecting_env :: env where
  "widget_rejecting_env =
     example_env\<lparr>rejects := (\<lambda>c. case c of Widget_SetValue v \<Rightarrow> True | _ \<Rightarrow> False)\<rparr>"

definition pan_event :: position_event where
  "pan_event = \<lparr>Pan = Some 5, Tilt = None, Zoom = None\<rparr>"

definition zero_event :: position_event where
  "zero_event = \<lparr>Pan = Some 0, Tilt = Some 0, Zoom = Some 0\<rparr>"

text \<open>A stream of all-zero events, and one with a single movement at 100 ms.\<close>

definition zero_stream :: "nat \<Rightarrow> position_event list" where
  "zero_stream t = [zero_event]"

definition pan_stream :: "nat \<Rightarrow> position_event list" where
  "pan_stream t = (if t = 100 then [pan_event] else [zero_event])"

text \<open>The camera moves twice with two seconds in between.\<close>

definition two_moves :: "event list" where
  "two_moves = [Position example_env pan_event, Wait 2000, Position widget_rejecting_env pan_event]"

text \<open>The state 500 ms after a preset was activated from outside.\<close>

definition gate_active :: macro_state where
  "gate_active = elapse 500 (schedule_close 500 (open_gate initial_state))"

definition speaker_selected :: macro_state where
  "speaker_selected =
     initial_state\<lparr>lastPresetSelection := [(''Type'', JStr ''Automatic''), (''Feature'', JStr ''Speaker'')]\<rparr>"



section \<open>The settle monitor: invariants\<close>

lemma on_position_settled: "settled (on_position now m ev) = settled m"
  by (simp add: on_position_def)

lemma foldl_on_position_settled: "settled (foldl (on_position now) m evs) = settled m"
  by (induction evs arbitrary: m) (simp_all add: on_position_settled)

lemma foldl_on_position_unsubscribed:
  "\<not> subscribed m \<Longrightarrow> foldl (on_position now) m evs = m"
  by (induction evs arbitrary: m) (simp_all add: on_position_def)

lemma foldl_on_position_quiet:
  "quiet evs \<Longrightarrow> foldl (on_position now) m evs = m"
  by (induction evs arbitrary: m) (simp_all add: on_position_def quiet_def)

lemma on_position_waiting: "waiting now m \<Longrightarrow> waiting now (on_position now m ev)"
  by (simp add: on_position_def waiting_def debounce_length_def)

lemma foldl_on_position_waiting:
  "waiting now m \<Longrightarrow> waiting now (foldl (on_position now) m evs)"
  by (induction evs arbitrary: m) (simp_all add: on_position_waiting)

lemma foldl_on_position_frame:
  "subscribed (foldl (on_position now) m evs) = subscribed m \<and>
   unsubscribe_calls (foldl (on_position now) m evs) = unsubscribe_calls m \<and>
   failsafeDebounce_run (foldl (on_position now) m evs) = failsafeDebounce_run m"
  by (induction evs arbitrary: m) (simp_all add: on_position_def)

text \<open>Once an event of the millisecond shows movement, the debounce timer is due 250 ms later.\<close>

lemma foldl_on_position_moved:
  "subscribed m \<Longrightarrow> \<not> quiet evs \<Longrightarrow>
   debounce_run (foldl (on_position now) m evs) = Some (now + debounce_length)"
proof (induction evs arbitrary: m rule: rev_induct)
  case Nil
  then show ?case by (simp add: quiet_def)
next
  case (snoc ev evs)
  have sub: "subscribed (foldl (on_position now) m evs)"
    using snoc.prems(1) foldl_on_position_frame by simp
  show ?case
  proof (cases "no_movement ev")
    case True
    with snoc.prems(2) have "\<not> quiet evs" by (simp add: quiet_def)
    moreover have "on_position now (foldl (on_position now) m evs) ev = foldl (on_position now) m evs"
      using True unfolding on_position_def by simp
    ultimately show ?thesis using snoc.IH snoc.prems(1) by simp
  next
    case False
    with sub have "debounce_run (on_position now (foldl (on_position now) m evs) ev)
        = Some (now + debounce_length)"
      unfolding on_position_def by simp
    then show ?thesis by simp
  qed
qed

lemma fire_timers_waiting:
  "waiting t m \<Longrightarrow> Suc t < failsafeDebounceTime_for_MainSourceSetOnCameraRampStop \<Longrightarrow>
   fire_timers (Suc t) m = (if debounce_run m = Some (Suc t) then stopped else m)"
  by (auto simp: fire_timers_def waiting_def debounce_fires_def resolve_def stopped_def Let_def)

lemma fire_timers_stopped: "fire_timers now stopped = stopped"
  by (simp add: fire_timers_def stopped_def)

lemma monitor_step_stopped: "monitor_step events now stopped = stopped"
proof -
  have "\<not> subscribed stopped" by (simp add: stopped_def)
  then show ?thesis
    unfolding monitor_step_def fire_timers_stopped by (rule foldl_on_position_unsubscribed)
qed

lemma waiting_Suc:
  "waiting t m \<Longrightarrow> debounce_run m \<noteq> Some (Suc t) \<Longrightarrow> waiting (Suc t) m"
  by (auto simp: waiting_def split: option.splits)

lemma monitor_step_waiting:
  assumes "waiting t m" and "Suc t < failsafeDebounceTime_for_MainSourceSetOnCameraRampStop"
  shows "waiting (Suc t) (monitor_step events (Suc t) m) \<or> monitor_step events (Suc t) m = stopped"
proof (cases "debounce_run m = Some (Suc t)")
  case True
  with assms have "fire_timers (Suc t) m = stopped" by (simp add: fire_timers_waiting)
  then show ?thesis
    using monitor_step_stopped [of events "Suc t"]
    by (simp add: monitor_step_def fire_timers_stopped)
next
  case False
  with assms have "fire_timers (Suc t) m = m" by (simp add: fire_timers_waiting)
  moreover from assms(1) False have "waiting (Suc t) m" by (rule waiting_Suc)
  ultimately show ?thesis by (simp add: monitor_step_def foldl_on_position_waiting)
qed

lemma monitor_start_step0: "waiting 0 (monitor_at events 0)"
proof -
  have "fire_timers 0 monitor_start = monitor_start"
    by (simp add: fire_timers_def monitor_start_def
        failsafeDebounceTime_for_MainSourceSetOnCameraRampStop_def)
  moreover have "waiting 0 monitor_start"
    by (simp add: waiting_def monitor_start_def)
  ultimately show ?thesis by (simp add: monitor_step_def foldl_on_position_waiting)
qed

text \<open>Before the failsafe time the monitor is unresolved, or the debounce timer has fired.\<close>

lemma monitor_before_failsafe:
  "t < failsafeDebounceTime_for_MainSourceSetOnCameraRampStop \<Longrightarrow>
   waiting t (monitor_at events t) \<or> monitor_at events t = stopped"
proof (induction t)
  case 0
  then show ?case by (simp only: monitor_start_step0 simp_thms)
next
  case (Suc t)
  then have "waiting t (monitor_at events t) \<or> monitor_at events t = stopped" by simp
  then show ?case
  proof
    assume "waiting t (monitor_at events t)"
    from monitor_step_waiting [OF this Suc.prems] show ?thesis by simp
  next
    assume "monitor_at events t = stopped"
    then show ?thesis by (simp add: monitor_step_stopped)
  qed
qed

lemma fire_timers_settled:
  "settled m = Some r \<Longrightarrow> settled (fire_timers now m) = Some r"
  by (simp add: fire_timers_def failsafe_fires_def debounce_fires_def resolve_def Let_def)

lemma monitor_step_settled:
  "settled m = Some r \<Longrightarrow> settled (monitor_step events now m) = Some r"
  by (simp add: monitor_step_def foldl_on_position_settled fire_timers_settled)

text \<open>The promise keeps the value it resolved with.\<close>

lemma monitor_at_settled:
  "settled (monitor_at events t) = Some r \<Longrightarrow> settled (monitor_at events (t + k)) = Some r"
  by (induction k) (simp_all add: monitor_step_settled)

lemma failsafe_step:
  assumes "waiting t m" and "Suc t = failsafeDebounceTime_for_MainSourceSetOnCameraRampStop"
  shows "settled (monitor_step events (Suc t) m) = Some Monitor_Timed_Out"
proof -
  from assms have "settled (fire_timers (Suc t) m) = Some Monitor_Timed_Out"
    by (simp add: fire_timers_def waiting_def failsafe_fires_def resolve_def Let_def)
  then show ?thesis by (simp add: monitor_step_def foldl_on_position_settled)
qed

lemma failsafe_pred:
  "\<exists>t. Suc t = failsafeDebounceTime_for_MainSourceSetOnCameraRampStop"
  by (simp add: failsafeDebounceTime_for_MainSourceSetOnCameraRampStop_def)

text \<open>Whatever the events are, the promise has resolved when the failsafe time has passed.\<close>

lemma monitor_resolves:
  "settled (monitor_at events failsafeDebounceTime_for_MainSourceSetOnCameraRampStop) \<noteq> None"
proof -
  obtain t where t: "Suc t = failsafeDebounceTime_for_MainSourceSetOnCameraRampStop"
    using failsafe_pred by blast
  then have "t < failsafeDebounceTime_for_MainSourceSetOnCameraRampStop" by simp
  then have "waiting t (monitor_at events t) \<or> monitor_at events t = stopped"
    by (rule monitor_before_failsafe)
  then have "settled (monitor_at events (Suc t)) \<noteq> None"
  proof
    assume "waiting t (monitor_at events t)"
    from failsafe_step [OF this t] show ?thesis by simp
  next
    assume "monitor_at events t = stopped"
    then have "monitor_at events (Suc t) = stopped" by (simp add: monitor_step_stopped)
    then show ?thesis by (simp add: stopped_def)
  qed
  with t show ?thesis by simp
qed

lemma monitor_resolved_later:
  assumes "failsafeDebounceTime_for_MainSourceSetOnCameraRampStop \<le> t"
  shows "settled (monitor_at events t) \<noteq> None"
proof -
  obtain r where "settled (monitor_at events failsafeDebounceTime_for_MainSourceSetOnCameraRampStop) = Some r"
    using monitor_resolves [of events] by blast
  then have "settled (monitor_at events (failsafeDebounceTime_for_MainSourceSetOnCameraRampStop
      + (t - failsafeDebounceTime_for_MainSourceSetOnCameraRampStop))) = Some r"
    by (rule monitor_at_settled)
  with assms show ?thesis by simp
qed

subsection \<open>Only all-zero events\<close>

lemma quiet_step_start:
  assumes "quiet (events now)" and "now < failsafeDebounceTime_for_MainSourceSetOnCameraRampStop"
  shows "monitor_step events now monitor_start = monitor_start"
proof -
  from assms(2) have "fire_timers now monitor_start = monitor_start"
    by (simp add: fire_timers_def monitor_start_def)
  with assms(1) show ?thesis by (simp add: monitor_step_def foldl_on_position_quiet)
qed

lemma quiet_before_failsafe:
  "\<forall>t. quiet (events t) \<Longrightarrow> t < failsafeDebounceTime_for_MainSourceSetOnCameraRampStop \<Longrightarrow>
   monitor_at events t = monitor_start"
  by (induction t) (simp_all add: quiet_step_start)

lemma quiet_step_failsafe:
  assumes "quiet (events failsafeDebounceTime_for_MainSourceSetOnCameraRampStop)"
  shows "monitor_step events failsafeDebounceTime_for_MainSourceSetOnCameraRampStop monitor_start
         = timed_out"
proof -
  have "fire_timers failsafeDebounceTime_for_MainSourceSetOnCameraRampStop monitor_start = timed_out"
    by (simp add: fire_timers_def monitor_start_def failsafe_fires_def resolve_def timed_out_def)
  with assms show ?thesis by (simp add: monitor_step_def foldl_on_position_quiet)
qed

lemma quiet_at_failsafe:
  assumes "\<forall>t. quiet (events t)"
  shows "monitor_at events failsafeDebounceTime_for_MainSourceSetOnCameraRampStop = timed_out"
proof -
  obtain t where t: "Suc t = failsafeDebounceTime_for_MainSourceSetOnCameraRampStop"
    using failsafe_pred by blast
  then have "monitor_at events t = monitor_start"
    using assms by (simp add: quiet_before_failsafe)
  then have "monitor_at events (Suc t) = monitor_step events (Suc t) monitor_start" by simp
  with t assms show ?thesis by (simp add: quiet_step_failsafe)
qed

lemma quiet_step_timed_out:
  assumes "quiet (events now)"
  shows "monitor_step events now timed_out = timed_out"
proof -
  have "fire_timers now timed_out = timed_out"
    by (simp add: fire_timers_def timed_out_def)
  with assms show ?thesis by (simp add: monitor_step_def foldl_on_position_quiet)
qed

lemma quiet_after_failsafe:
  assumes "\<forall>t. quiet (events t)"
  shows "monitor_at events (failsafeDebounceTime_for_MainSourceSetOnCameraRampStop + k) = timed_out"
  using assms by (induction k) (simp_all add: quiet_at_failsafe quiet_step_timed_out)

subsection \<open>Movement, then silence\<close>

lemma armed_quiet_step:
  assumes "armed due m" and "now < due"
    and "now < failsafeDebounceTime_for_MainSourceSetOnCameraRampStop" and "quiet (events now)"
  shows "monitor_step events now m = m"
proof -
  from assms(1-3) have "fire_timers now m = m"
    by (auto simp: fire_timers_def armed_def)
  with assms(4) show ?thesis by (simp add: monitor_step_def foldl_on_position_quiet)
qed

lemma armed_due_step:
  assumes "armed due m" and "due < failsafeDebounceTime_for_MainSourceSetOnCameraRampStop"
  shows "monitor_step events due m = stopped"
proof -
  from assms have "fire_timers due m = stopped"
    by (auto simp: fire_timers_def armed_def debounce_fires_def resolve_def stopped_def)
  then show ?thesis using monitor_step_stopped [of events due]
    by (simp add: monitor_step_def fire_timers_stopped)
qed

lemma monitor_at_is_fold:
  "\<exists>m. monitor_at events t = foldl (on_position t) m (events t)"
  by (cases t) (auto simp: monitor_step_def)

lemma moved_state:
  assumes "t0 < failsafeDebounceTime_for_MainSourceSetOnCameraRampStop" and "\<not> quiet (events t0)"
  shows "armed (t0 + debounce_length) (monitor_at events t0) \<or> monitor_at events t0 = stopped"
proof -
  from assms(1) have "waiting t0 (monitor_at events t0) \<or> monitor_at events t0 = stopped"
    by (rule monitor_before_failsafe)
  then show ?thesis
  proof
    assume w: "waiting t0 (monitor_at events t0)"
    obtain m where m: "monitor_at events t0 = foldl (on_position t0) m (events t0)"
      using monitor_at_is_fold by blast
    from w have "subscribed (monitor_at events t0)" by (simp add: waiting_def)
    with m have "subscribed m" using foldl_on_position_frame [of t0 m "events t0"] by simp
    from foldl_on_position_moved [OF this assms(2)] m
    have "debounce_run (monitor_at events t0) = Some (t0 + debounce_length)" by simp
    with w show ?thesis by (simp add: armed_def waiting_def)
  next
    assume "monitor_at events t0 = stopped"
    then show ?thesis by simp
  qed
qed

lemma silence_keeps_armed:
  assumes "armed (t0 + debounce_length) (monitor_at events t0) \<or> monitor_at events t0 = stopped"
    and "\<forall>t. t0 < t \<and> t \<le> t0 + debounce_length \<longrightarrow> quiet (events t)"
    and "t0 + debounce_length < failsafeDebounceTime_for_MainSourceSetOnCameraRampStop"
  shows "k < debounce_length \<Longrightarrow>
         armed (t0 + debounce_length) (monitor_at events (t0 + k)) \<or>
         monitor_at events (t0 + k) = stopped"
proof (induction k)
  case 0
  with assms(1) show ?case by simp
next
  case (Suc k)
  then have "armed (t0 + debounce_length) (monitor_at events (t0 + k)) \<or>
      monitor_at events (t0 + k) = stopped"
    by simp
  then show ?case
  proof
    assume a: "armed (t0 + debounce_length) (monitor_at events (t0 + k))"
    have "monitor_step events (Suc (t0 + k)) (monitor_at events (t0 + k)) = monitor_at events (t0 + k)"
    proof (rule armed_quiet_step [OF a])
      show "Suc (t0 + k) < t0 + debounce_length" using Suc.prems by simp
      show "Suc (t0 + k) < failsafeDebounceTime_for_MainSourceSetOnCameraRampStop"
        using Suc.prems assms(3) by simp
      show "quiet (events (Suc (t0 + k)))" using assms(2) Suc.prems by simp
    qed
    with a show ?thesis by simp
  next
    assume "monitor_at events (t0 + k) = stopped"
    then show ?thesis by (simp add: monitor_step_stopped)
  qed
qed

lemma debounce_pred: "\<exists>k. Suc k = debounce_length"
  by (simp add: debounce_length_def)

lemma movement_then_silence:
  assumes "\<not> quiet (events t0)"
    and "\<forall>t. t0 < t \<and> t \<le> t0 + debounce_length \<longrightarrow> quiet (events t)"
    and "t0 + debounce_length < failsafeDebounceTime_for_MainSourceSetOnCameraRampStop"
  shows "monitor_at events (t0 + debounce_length) = stopped"
proof -
  obtain k where k: "debounce_length = Suc k" using debounce_pred by metis
  from assms(3) have "t0 < failsafeDebounceTime_for_MainSourceSetOnCameraRampStop" by simp
  then have "armed (t0 + debounce_length) (monitor_at events t0) \<or> monitor_at events t0 = stopped"
    using assms(1) by (rule moved_state)
  moreover have "k < debounce_length" using k by simp
  ultimately have before:
    "armed (t0 + debounce_length) (monitor_at events (t0 + k)) \<or> monitor_at events (t0 + k) = stopped"
    using silence_keeps_armed [of t0 events k] assms(2,3) by blast
  have step: "monitor_at events (t0 + debounce_length)
      = monitor_step events (t0 + debounce_length) (monitor_at events (t0 + k))"
    by (simp only: k add_Suc_right monitor_at.simps)
  from before show ?thesis
  proof
    assume "armed (t0 + debounce_length) (monitor_at events (t0 + k))"
    then have "monitor_step events (t0 + debounce_length) (monitor_at events (t0 + k)) = stopped"
      using assms(3) by (rule armed_due_step)
    with step show ?thesis by simp
  next
    assume "monitor_at events (t0 + k) = stopped"
    with step show ?thesis by (simp only: monitor_step_stopped)
  qed
qed

subsection \<open>The outcome \<open>Camera_Stopped\<close>\<close>

text \<open>
  If the promise resolved with \<open>Camera_Stopped\<close>, the debounce timer fired first: both
  timers are gone and the subscription was torn down once.
\<close>

lemma stopped_outcome:
  "settled (monitor_at events t) = Some Camera_Stopped \<Longrightarrow> monitor_at events t = stopped"
proof (induction t)
  case 0
  with monitor_start_step0 [of events] show ?case by (simp add: waiting_def)
next
  case (Suc t)
  show ?case
  proof (cases "settled (monitor_at events t)")
    case (Some r)
    then have "settled (monitor_at events (Suc t)) = Some r" by (simp add: monitor_step_settled)
    with Suc.prems have "r = Camera_Stopped" by simp
    with Some Suc.IH have "monitor_at events t = stopped" by simp
    then show ?thesis by (simp add: monitor_step_stopped)
  next
    case None
    then have lt: "t < failsafeDebounceTime_for_MainSourceSetOnCameraRampStop"
      using monitor_resolved_later [of t events] by (cases "t < failsafeDebounceTime_for_MainSourceSetOnCameraRampStop") simp_all
    then have "waiting t (monitor_at events t) \<or> monitor_at events t = stopped"
      by (rule monitor_before_failsafe)
    with None have w: "waiting t (monitor_at events t)" by (auto simp: stopped_def)
    show ?thesis
    proof (cases "Suc t < failsafeDebounceTime_for_MainSourceSetOnCameraRampStop")
      case True
      from monitor_step_waiting [OF w True, of events] Suc.prems show ?thesis
        by (auto simp: waiting_def)
    next
      case False
      with lt have "Suc t = failsafeDebounceTime_for_MainSourceSetOnCameraRampStop" by simp
      from failsafe_step [OF w this, of events] Suc.prems show ?thesis by simp
    qed
  qed
qed

section \<open>Claims about the settle monitor\<close>

text \<open>
  Claim C2. \<open>monitorCameraStoppedPosition\<close> always resolves, for every stream of position
  events. It has resolved when the failsafe time of 2500 ms has passed. If every event is
  all-zero, it resolves with \<open>Monitor_Timed_Out\<close>, at the failsafe time and not before. If
  some event at \<open>t0\<close> shows movement, no event shows movement during the 250 ms after
  \<open>t0\<close>, and these 250 ms end before the failsafe time, it has resolved with
  \<open>Camera_Stopped\<close> at \<open>t0 + 250\<close>, before the failsafe time. There is no path that rejects,
  and a value the promise resolved with never changes.
\<close>

theorem monitorCameraStoppedPosition_resolves:
  "monitorCameraStoppedPosition events \<noteq> None \<and>
   ((\<forall>t. quiet (events t)) \<longrightarrow>
      monitorCameraStoppedPosition events = Some Monitor_Timed_Out \<and>
      (\<forall>t < failsafeDebounceTime_for_MainSourceSetOnCameraRampStop.
         settled (monitor_at events t) = None)) \<and>
   (\<not> quiet (events t0) \<and> (\<forall>t. t0 < t \<and> t \<le> t0 + debounce_length \<longrightarrow> quiet (events t)) \<and>
    t0 + debounce_length < failsafeDebounceTime_for_MainSourceSetOnCameraRampStop \<longrightarrow>
      settled (monitor_at events (t0 + debounce_length)) = Some Camera_Stopped \<and>
      monitorCameraStoppedPosition events = Some Camera_Stopped) \<and>
   (settled (monitor_at events t) = Some r \<longrightarrow> settled (monitor_at events (t + k)) = Some r)"
proof (intro conjI impI allI)
  show "monitorCameraStoppedPosition events \<noteq> None"
    unfolding monitorCameraStoppedPosition_def by (rule monitor_resolves)
next
  assume "\<forall>t. quiet (events t)"
  then show "monitorCameraStoppedPosition events = Some Monitor_Timed_Out"
    by (simp add: monitorCameraStoppedPosition_def quiet_at_failsafe timed_out_def)
next
  fix t
  assume "\<forall>t. quiet (events t)" and "t < failsafeDebounceTime_for_MainSourceSetOnCameraRampStop"
  then show "settled (monitor_at events t) = None"
    by (simp add: quiet_before_failsafe monitor_start_def)
next
  assume a: "\<not> quiet (events t0) \<and>
    (\<forall>t. t0 < t \<and> t \<le> t0 + debounce_length \<longrightarrow> quiet (events t)) \<and>
    t0 + debounce_length < failsafeDebounceTime_for_MainSourceSetOnCameraRampStop"
  then have "monitor_at events (t0 + debounce_length) = stopped"
    using movement_then_silence by blast
  then show s: "settled (monitor_at events (t0 + debounce_length)) = Some Camera_Stopped"
    by (simp add: stopped_def)
  from a obtain d
    where d: "t0 + debounce_length + d = failsafeDebounceTime_for_MainSourceSetOnCameraRampStop"
    using less_imp_add_positive by blast
  from s have "settled (monitor_at events (t0 + debounce_length + d)) = Some Camera_Stopped"
    by (rule monitor_at_settled)
  then show "monitorCameraStoppedPosition events = Some Camera_Stopped"
    by (simp only: monitorCameraStoppedPosition_def d)
next
  assume "settled (monitor_at events t) = Some r"
  then show "settled (monitor_at events (t + k)) = Some r" by (rule monitor_at_settled)
qed

lemma zero_stream_quiet: "quiet (zero_stream t)"
  by (simp add: zero_stream_def quiet_def zero_event_def no_movement_def falsy_def)

lemma pan_stream_moves: "\<not> quiet (pan_stream 100)"
  by (simp add: pan_stream_def quiet_def pan_event_def no_movement_def falsy_def)

lemma pan_stream_silence: "100 < t \<Longrightarrow> quiet (pan_stream t)"
  by (simp add: pan_stream_def quiet_def zero_event_def no_movement_def falsy_def)

theorem monitorCameraStoppedPosition_resolves_witness:
  "(\<forall>t. quiet (zero_stream t)) \<and>
   monitorCameraStoppedPosition zero_stream = Some Monitor_Timed_Out \<and>
   settled (monitor_at zero_stream 2499) = None \<and>
   \<not> quiet (pan_stream 100) \<and> quiet (pan_stream 101) \<and> quiet (pan_stream 350) \<and>
   settled (monitor_at pan_stream 350) = Some Camera_Stopped \<and>
   monitorCameraStoppedPosition pan_stream = Some Camera_Stopped"
  using monitorCameraStoppedPosition_resolves [of zero_stream 0 0 Monitor_Timed_Out 0]
    monitorCameraStoppedPosition_resolves [of pan_stream 100 0 Monitor_Timed_Out 0]
  by (simp add: zero_stream_quiet pan_stream_moves pan_stream_silence debounce_length_def
      failsafeDebounceTime_for_MainSourceSetOnCameraRampStop_def)

text \<open>
  When the failsafe timer wins, whatever the events were, the subscription is still live
  at the moment the promise resolves.
\<close>

lemma timed_out_keeps_subscription:
  assumes "settled (monitor_at events failsafeDebounceTime_for_MainSourceSetOnCameraRampStop)
           = Some Monitor_Timed_Out"
  shows "subscribed (monitor_at events failsafeDebounceTime_for_MainSourceSetOnCameraRampStop) \<and>
         unsubscribe_calls (monitor_at events failsafeDebounceTime_for_MainSourceSetOnCameraRampStop) = 0"
proof -
  obtain t where t: "Suc t = failsafeDebounceTime_for_MainSourceSetOnCameraRampStop"
    using failsafe_pred by blast
  then have "t < failsafeDebounceTime_for_MainSourceSetOnCameraRampStop" by simp
  then have "waiting t (monitor_at events t) \<or> monitor_at events t = stopped"
    by (rule monitor_before_failsafe)
  then have "subscribed (monitor_at events (Suc t)) \<and> unsubscribe_calls (monitor_at events (Suc t)) = 0"
  proof
    assume w: "waiting t (monitor_at events t)"
    with t have "subscribed (fire_timers (Suc t) (monitor_at events t)) \<and>
        unsubscribe_calls (fire_timers (Suc t) (monitor_at events t)) = 0"
      by (simp add: fire_timers_def waiting_def failsafe_fires_def resolve_def Let_def)
    then show ?thesis
      using foldl_on_position_frame
        [of "Suc t" "fire_timers (Suc t) (monitor_at events t)" "events (Suc t)"]
      by (simp add: monitor_step_def)
  next
    assume "monitor_at events t = stopped"
    then have "monitor_at events (Suc t) = stopped" by (simp add: monitor_step_stopped)
    with assms t show ?thesis by (simp add: stopped_def)
  qed
  with t show ?thesis by simp
qed

text \<open>
  Claim C5. Whichever timer of \<open>monitorCameraStoppedPosition\<close> fires first clears the
  other. On the path that resolves with \<open>Camera_Stopped\<close> the subscription was torn down
  once and stays so. On the path that resolves with \<open>Monitor_Timed_Out\<close> the failsafe
  callback does not call the unsubscribe function: when the promise resolves, the
  subscription is still live and was never torn down; with only all-zero events this
  stays so at any later time.
\<close>

theorem failsafe_keeps_subscription:
  "(settled (monitor_at events t) = Some Camera_Stopped \<longrightarrow>
      failsafeDebounce_run (monitor_at events t) = None \<and>
      debounce_run (monitor_at events t) = None \<and>
      \<not> subscribed (monitor_at events t) \<and>
      unsubscribe_calls (monitor_at events t) = 1) \<and>
   (monitorCameraStoppedPosition events = Some Monitor_Timed_Out \<longrightarrow>
      subscribed (monitor_at events failsafeDebounceTime_for_MainSourceSetOnCameraRampStop) \<and>
      unsubscribe_calls (monitor_at events failsafeDebounceTime_for_MainSourceSetOnCameraRampStop) = 0) \<and>
   ((\<forall>t. quiet (events t)) \<longrightarrow>
      settled (monitor_at events (failsafeDebounceTime_for_MainSourceSetOnCameraRampStop + k))
        = Some Monitor_Timed_Out \<and>
      failsafeDebounce_run (monitor_at events (failsafeDebounceTime_for_MainSourceSetOnCameraRampStop + k))
        = None \<and>
      debounce_run (monitor_at events (failsafeDebounceTime_for_MainSourceSetOnCameraRampStop + k))
        = None \<and>
      subscribed (monitor_at events (failsafeDebounceTime_for_MainSourceSetOnCameraRampStop + k)) \<and>
      unsubscribe_calls (monitor_at events (failsafeDebounceTime_for_MainSourceSetOnCameraRampStop + k))
        = 0)"
proof (intro conjI impI)
  assume "settled (monitor_at events t) = Some Camera_Stopped"
  then have s: "monitor_at events t = stopped" by (rule stopped_outcome)
  show "failsafeDebounce_run (monitor_at events t) = None" by (simp add: s stopped_def)
  show "debounce_run (monitor_at events t) = None" by (simp add: s stopped_def)
  show "\<not> subscribed (monitor_at events t)" by (simp add: s stopped_def)
  show "unsubscribe_calls (monitor_at events t) = 1" by (simp add: s stopped_def)
next
  assume "monitorCameraStoppedPosition events = Some Monitor_Timed_Out"
  then have a: "settled (monitor_at events failsafeDebounceTime_for_MainSourceSetOnCameraRampStop)
      = Some Monitor_Timed_Out"
    by (simp add: monitorCameraStoppedPosition_def)
  from timed_out_keeps_subscription [OF a]
  show "subscribed (monitor_at events failsafeDebounceTime_for_MainSourceSetOnCameraRampStop)"
    and "unsubscribe_calls (monitor_at events failsafeDebounceTime_for_MainSourceSetOnCameraRampStop) = 0"
    by simp_all
next
  assume "\<forall>t. quiet (events t)"
  then have s: "monitor_at events (failsafeDebounceTime_for_MainSourceSetOnCameraRampStop + k)
      = timed_out"
    by (rule quiet_after_failsafe)
  show "settled (monitor_at events (failsafeDebounceTime_for_MainSourceSetOnCameraRampStop + k))
      = Some Monitor_Timed_Out"
    by (simp add: s timed_out_def)
  show "failsafeDebounce_run (monitor_at events (failsafeDebounceTime_for_MainSourceSetOnCameraRampStop + k))
      = None"
    by (simp add: s timed_out_def)
  show "debounce_run (monitor_at events (failsafeDebounceTime_for_MainSourceSetOnCameraRampStop + k))
      = None"
    by (simp add: s timed_out_def)
  show "subscribed (monitor_at events (failsafeDebounceTime_for_MainSourceSetOnCameraRampStop + k))"
    by (simp add: s timed_out_def)
  show "unsubscribe_calls (monitor_at events (failsafeDebounceTime_for_MainSourceSetOnCameraRampStop + k))
      = 0"
    by (simp add: s timed_out_def)
qed

theorem failsafe_keeps_subscription_witness:
  "(\<forall>t. quiet (zero_stream t)) \<and>
   settled (monitor_at zero_stream 2500) = Some Monitor_Timed_Out \<and>
   subscribed (monitor_at zero_stream 2500) \<and>
   unsubscribe_calls (monitor_at zero_stream 2500) = 0 \<and>
   subscribed (monitor_at zero_stream 60000) \<and>
   unsubscribe_calls (monitor_at zero_stream 60000) = 0"
  using failsafe_keeps_subscription [of zero_stream 0 0]
    failsafe_keeps_subscription [of zero_stream 0 57500]
  by (simp add: zero_stream_quiet failsafeDebounceTime_for_MainSourceSetOnCameraRampStop_def)

section \<open>The selection encoding: decoding and encoding again\<close>

lemma split_on_no_sep: "d \<notin> set a \<Longrightarrow> split_on d a = [a]"
  by (induction a) auto

lemma split_on_append: "d \<notin> set a \<Longrightarrow> split_on d (a @ d # b) = a # split_on d b"
  by (induction a) auto

lemma digit_char_cases: "digit_char d \<in> set ''0123456789''"
proof -
  have "nat (d mod 10) < length ''0123456789''" by simp
  then show ?thesis unfolding digit_char_def by (rule nth_mem)
qed

lemma is_digit_digit_char: "is_digit (digit_char d)"
  using digit_char_cases by (simp add: is_digit_def)

lemma digit_val_digit_char: "digit_val (digit_char d) = d mod 10"
proof -
  define k where "k = nat (d mod 10)"
  have "k < 10" by (simp add: k_def)
  then have "k = 0 \<or> k = 1 \<or> k = 2 \<or> k = 3 \<or> k = 4 \<or> k = 5 \<or> k = 6 \<or> k = 7 \<or> k = 8 \<or> k = 9"
    by arith
  moreover have "d mod 10 = int k" by (simp add: k_def)
  moreover have "digit_char d = ''0123456789'' ! k" by (simp add: digit_char_def k_def)
  ultimately show ?thesis
    by (elim disjE) (simp_all add: digit_val_def)
qed

lemma int_of_digits_snoc: "int_of_digits (ds @ [c]) = 10 * int_of_digits ds + digit_val c"
  by (simp add: int_of_digits_def)

lemma show_digits_digits: "list_all is_digit (show_digits n)"
  by (induction n rule: show_digits.induct)
     (subst show_digits.simps, simp add: is_digit_digit_char)

lemma show_digits_nonempty: "show_digits n \<noteq> []"
  by (subst show_digits.simps) simp

text \<open>Reading the printed digits of a non-negative integer gives the integer back.\<close>

lemma int_of_show_digits: "0 \<le> n \<Longrightarrow> int_of_digits (show_digits n) = n"
proof (induction n rule: show_digits.induct)
  case (1 n)
  show ?case
  proof (cases "n < 10")
    case True
    with "1.prems" have "n mod 10 = n" by simp
    with True show ?thesis
      by (subst show_digits.simps) (simp add: int_of_digits_def digit_val_digit_char)
  next
    case False
    with "1.prems" have "int_of_digits (show_digits (n div 10)) = n div 10"
      using "1.IH" by simp
    with False show ?thesis
      by (subst show_digits.simps) (simp add: int_of_digits_snoc digit_val_digit_char)
  qed
qed

lemma trim_no_ws: "\<forall>c\<in>set s. \<not> is_ws c \<Longrightarrow> trim s = s"
proof (cases s rule: rev_cases)
  case Nil
  then show ?thesis by (simp add: trim_def)
next
  case (snoc xs x)
  assume a: "\<forall>c\<in>set s. \<not> is_ws c"
  have "dropWhile is_ws s = s"
    using a by (cases s) simp_all
  moreover have "dropWhile is_ws (rev s) = rev s"
    using a snoc by simp
  ultimately show ?thesis by (simp add: trim_def)
qed

lemma digit_not_ws: "is_digit c \<Longrightarrow> \<not> is_ws c"
  by (auto simp: is_digit_def is_ws_def)

lemma digit_not_sep: "is_digit c \<Longrightarrow> not_sep c"
  by (auto simp: is_digit_def not_sep_def)

lemma digit_not_sign: "is_digit c \<Longrightarrow> c \<noteq> CHR ''+'' \<and> c \<noteq> CHR ''-''"
  by (auto simp: is_digit_def)

lemma show_digits_set: "c \<in> set (show_digits n) \<Longrightarrow> is_digit c"
  using show_digits_digits [of n] by (simp add: list_all_iff)

lemma sign_split_digits: "ds \<noteq> [] \<Longrightarrow> list_all is_digit ds \<Longrightarrow> sign_split ds = (False, ds)"
  by (cases ds) (auto simp: sign_split_def dest: digit_not_sign)

lemma StringToNumber_digits:
  assumes "0 \<le> n" and "n < 2 ^ 53"
  shows "StringToNumber (show_digits n) = IntLit n"
proof -
  have t: "trim (show_digits n) = show_digits n"
    by (rule trim_no_ws) (auto dest: show_digits_set digit_not_ws)
  have s: "sign_split (show_digits n) = (False, show_digits n)"
    by (rule sign_split_digits) (simp_all add: show_digits_nonempty show_digits_digits)
  show ?thesis
    using assms
    by (simp add: StringToNumber_def t s show_digits_nonempty all_digits_def show_digits_digits
        int_of_show_digits)
qed

lemma StringToNumber_minus_digits:
  assumes "0 < n" and "n < 2 ^ 53"
  shows "StringToNumber (CHR ''-'' # show_digits n) = IntLit (- n)"
proof -
  have "\<not> is_ws (CHR ''-'')" by (simp add: is_ws_def)
  then have t: "trim (CHR ''-'' # show_digits n) = CHR ''-'' # show_digits n"
    by (intro trim_no_ws) (auto dest: show_digits_set digit_not_ws)
  have s: "sign_split (CHR ''-'' # show_digits n) = (True, show_digits n)"
    by (simp add: sign_split_def)
  show ?thesis
    using assms
    by (simp add: StringToNumber_def t s show_digits_nonempty all_digits_def show_digits_digits
        int_of_show_digits)
qed

text \<open>\<open>Number(`${i}`)\<close> is \<open>i\<close> for an integer that a double holds exactly.\<close>

lemma StringToNumber_show_int:
  "\<bar>i\<bar> < 2 ^ 53 \<Longrightarrow> StringToNumber (show_int i) = IntLit i"
  by (cases "i < 0")
     (simp_all add: show_int_def StringToNumber_digits StringToNumber_minus_digits)

lemma show_int_not_sep: "c \<in> set (show_int i) \<Longrightarrow> not_sep c"
  by (auto simp: show_int_def not_sep_def dest!: show_digits_set digit_not_sep split: if_splits)

lemma show_int_no_tilde: "CHR ''~'' \<notin> set (show_int i)"
  using show_int_not_sep [of "CHR ''~''" i] by (auto simp: not_sep_def)

lemma show_int_no_colon: "CHR '':'' \<notin> set (show_int i)"
  using show_int_not_sep [of "CHR '':''" i] by (auto simp: not_sep_def)

lemma coerce_show_int: "\<bar>i\<bar> < 2 ^ 53 \<Longrightarrow> coerce_value (Some (show_int i)) = JNum i"
  by (simp add: coerce_value_def StringToNumber_show_int)

lemma coerce_text: "StringToNumber s = NaN \<Longrightarrow> coerce_value (Some s) = JStr s"
  by (simp add: coerce_value_def)

lemma set_pair_field:
  "CHR '':'' \<notin> set k \<Longrightarrow> CHR '':'' \<notin> set v \<Longrightarrow>
   set_pair ob (k @ CHR '':'' # v) = obj_set k (coerce_value (Some v)) ob"
  by (simp add: set_pair_def split_on_append split_on_no_sep)

lemma StringToNumber_Preset: "StringToNumber ''Preset'' = NaN"
  by code_simp

lemma StringToNumber_Automatic: "StringToNumber ''Automatic'' = NaN"
  by code_simp

lemma set_pair_Type_Preset: "set_pair [] ''Type:Preset'' = [(''Type'', JStr ''Preset'')]"
  using set_pair_field [of "''Type''" "''Preset''" "[]"]
  by (simp add: coerce_text StringToNumber_Preset)

lemma set_pair_Type_Automatic: "set_pair [] ''Type:Automatic'' = [(''Type'', JStr ''Automatic'')]"
  using set_pair_field [of "''Type''" "''Automatic''" "[]"]
  by (simp add: coerce_text StringToNumber_Automatic)

lemma split_preset_key:
  assumes "CHR ''~'' \<notin> set (Name p)"
  shows "split_on (CHR ''~'') (preset_key p)
         = [''Type:Preset'', ''CameraId:'' @ show_int (CameraId p),
            ''PresetId:'' @ show_int (PresetId p), ''PresetName:'' @ Name p]"
proof -
  have shape: "preset_key p
      = ''Type:Preset'' @ CHR ''~'' # ((''CameraId:'' @ show_int (CameraId p)) @ CHR ''~'' #
          ((''PresetId:'' @ show_int (PresetId p)) @ CHR ''~'' # (''PresetName:'' @ Name p)))"
    by (simp add: preset_key_def)
  have 1: "CHR ''~'' \<notin> set ''Type:Preset''" by simp
  have 2: "CHR ''~'' \<notin> set (''CameraId:'' @ show_int (CameraId p))"
    by (simp add: show_int_no_tilde)
  have 3: "CHR ''~'' \<notin> set (''PresetId:'' @ show_int (PresetId p))"
    by (simp add: show_int_no_tilde)
  have 4: "CHR ''~'' \<notin> set (''PresetName:'' @ Name p)"
    using assms by simp
  show ?thesis
    unfolding shape
    by (simp only: split_on_append [OF 1] split_on_append [OF 2] split_on_append [OF 3]
        split_on_no_sep [OF 4])
qed

lemma regex_test_preset_key: "regex_test (preset_key p)"
  by (simp add: preset_key_def regex_test_def value_then_end_def not_sep_def)

lemma regex_test_tracking_key: "regex_test (tracking_key f)"
  by (simp add: tracking_key_def regex_test_def value_then_end_def not_sep_def)

text \<open>What the decoder reads from the key of a preset: the name goes through the coercion.\<close>

lemma parse_preset_key_coerced:
  assumes "\<bar>CameraId p\<bar> < 2 ^ 53" and "\<bar>PresetId p\<bar> < 2 ^ 53"
    and "list_all not_sep (Name p)"
  shows "parseKeyValuePairs (preset_key p)
         = [(''Type'', JStr ''Preset''), (''CameraId'', JNum (CameraId p)),
            (''PresetId'', JNum (PresetId p)),
            (''PresetName'', coerce_value (Some (Name p)))]"
proof -
  from assms(3) have nt: "CHR ''~'' \<notin> set (Name p)" and nc: "CHR '':'' \<notin> set (Name p)"
    by (auto simp: list_all_iff not_sep_def)
  have c: "set_pair ob (''CameraId:'' @ show_int (CameraId p))
           = obj_set ''CameraId'' (JNum (CameraId p)) ob" for ob
    using set_pair_field [of "''CameraId''" "show_int (CameraId p)" ob] assms(1)
    by (simp add: show_int_no_colon coerce_show_int)
  have i: "set_pair ob (''PresetId:'' @ show_int (PresetId p))
           = obj_set ''PresetId'' (JNum (PresetId p)) ob" for ob
    using set_pair_field [of "''PresetId''" "show_int (PresetId p)" ob] assms(2)
    by (simp add: show_int_no_colon coerce_show_int)
  have n: "set_pair ob (''PresetName:'' @ Name p)
           = obj_set ''PresetName'' (coerce_value (Some (Name p))) ob" for ob
    using set_pair_field [of "''PresetName''" "Name p" ob] nc
    by simp
  show ?thesis
    unfolding parseKeyValuePairs_def
    by (simp add: regex_test_preset_key split_preset_key [OF nt] set_pair_Type_Preset
        c [unfolded append_Cons append_Nil] i [unfolded append_Cons append_Nil]
        n [unfolded append_Cons append_Nil])
qed

lemma parse_preset_key:
  assumes "\<bar>CameraId p\<bar> < 2 ^ 53" and "\<bar>PresetId p\<bar> < 2 ^ 53"
    and "StringToNumber (Name p) = NaN" and "list_all not_sep (Name p)"
  shows "parseKeyValuePairs (preset_key p)
         = [(''Type'', JStr ''Preset''), (''CameraId'', JNum (CameraId p)),
            (''PresetId'', JNum (PresetId p)), (''PresetName'', JStr (Name p))]"
  using parse_preset_key_coerced [OF assms(1,2,4)] assms(3) by (simp add: coerce_text)

lemma parse_tracking_key:
  assumes "StringToNumber f = NaN" and "list_all not_sep f"
  shows "parseKeyValuePairs (tracking_key f)
         = [(''Type'', JStr ''Automatic''), (''Feature'', JStr f)]"
proof -
  from assms(2) have nt: "CHR ''~'' \<notin> set f" and nc: "CHR '':'' \<notin> set f"
    by (auto simp: list_all_iff not_sep_def)
  have shape: "tracking_key f = ''Type:Automatic'' @ CHR ''~'' # (''Feature:'' @ f)"
    by (simp add: tracking_key_def)
  have 1: "CHR ''~'' \<notin> set ''Type:Automatic''" by simp
  have 2: "CHR ''~'' \<notin> set (''Feature:'' @ f)" using nt by simp
  have sp: "split_on (CHR ''~'') (tracking_key f) = [''Type:Automatic'', ''Feature:'' @ f]"
    unfolding shape by (simp only: split_on_append [OF 1] split_on_no_sep [OF 2])
  have n: "set_pair ob (''Feature:'' @ f) = obj_set ''Feature'' (JStr f) ob" for ob
    using set_pair_field [of "''Feature''" f ob] assms(1) nc
    by (simp add: coerce_text)
  show ?thesis
    unfolding parseKeyValuePairs_def
    by (simp add: regex_test_tracking_key sp set_pair_Type_Automatic
        n [unfolded append_Cons append_Nil])
qed

text \<open>
  Decoding a widget key and encoding the result again gives the key back when the decoder
  reads every field the way it was written: a tracking key whose feature is no numeric
  literal, the key of a preset whose name is no numeric literal.
\<close>

lemma selection_round_trip:
  "(StringToNumber f = NaN \<and> list_all not_sep f \<longrightarrow>
      encodeSelection nts (parseKeyValuePairs (tracking_key f)) = tracking_key f) \<and>
   (\<bar>CameraId p\<bar> < 2 ^ 53 \<and> \<bar>PresetId p\<bar> < 2 ^ 53 \<and>
    StringToNumber (Name p) = NaN \<and> list_all not_sep (Name p) \<longrightarrow>
      encodeSelection nts (parseKeyValuePairs (preset_key p)) = preset_key p)"
proof (intro conjI impI)
  assume "StringToNumber f = NaN \<and> list_all not_sep f"
  then have "parseKeyValuePairs (tracking_key f)
      = [(''Type'', JStr ''Automatic''), (''Feature'', JStr f)]"
    by (simp add: parse_tracking_key)
  then show "encodeSelection nts (parseKeyValuePairs (tracking_key f)) = tracking_key f"
    by (simp add: encodeSelection_def obj_get_def ToString_def tracking_key_def)
next
  assume "\<bar>CameraId p\<bar> < 2 ^ 53 \<and> \<bar>PresetId p\<bar> < 2 ^ 53 \<and>
    StringToNumber (Name p) = NaN \<and> list_all not_sep (Name p)"
  then have "parseKeyValuePairs (preset_key p)
         = [(''Type'', JStr ''Preset''), (''CameraId'', JNum (CameraId p)),
            (''PresetId'', JNum (PresetId p)), (''PresetName'', JStr (Name p))]"
    by (simp add: parse_preset_key)
  then show "encodeSelection nts (parseKeyValuePairs (preset_key p)) = preset_key p"
    by (simp add: encodeSelection_def obj_get_def ToString_def preset_key_def)
qed

text \<open>A name made of decimal digits is read as the number it denotes.\<close>

lemma StringToNumber_all_digits:
  assumes "all_digits n" and "int_of_digits n < 2 ^ 53"
  shows "StringToNumber n = IntLit (int_of_digits n)"
proof -
  from assms(1) have ne: "n \<noteq> []" and ds: "list_all is_digit n"
    by (simp_all add: all_digits_def)
  have t: "trim n = n"
    by (rule trim_no_ws) (use ds in \<open>auto simp: list_all_iff dest: digit_not_ws\<close>)
  have s: "sign_split n = (False, n)"
    using ne ds by (rule sign_split_digits)
  show ?thesis
    using assms ne by (simp add: StringToNumber_def t s)
qed

lemma all_digits_not_sep: "all_digits n \<Longrightarrow> list_all not_sep n"
  by (auto simp: all_digits_def list_all_iff dest: digit_not_sep)

lemma encode_parse_digit_name:
  assumes "\<bar>CameraId p\<bar> < 2 ^ 53" and "\<bar>PresetId p\<bar> < 2 ^ 53"
    and "all_digits (Name p)" and "int_of_digits (Name p) < 2 ^ 53"
  shows "encodeSelection nts (parseKeyValuePairs (preset_key p))
         = preset_key (p\<lparr>Name := show_int (int_of_digits (Name p))\<rparr>)"
proof -
  have "coerce_value (Some (Name p)) = JNum (int_of_digits (Name p))"
    using assms(3,4) by (simp add: coerce_value_def StringToNumber_all_digits)
  with parse_preset_key_coerced [OF assms(1,2) all_digits_not_sep [OF assms(3)]]
  have "parseKeyValuePairs (preset_key p)
         = [(''Type'', JStr ''Preset''), (''CameraId'', JNum (CameraId p)),
            (''PresetId'', JNum (PresetId p)),
            (''PresetName'', JNum (int_of_digits (Name p)))]"
    by simp
  then show ?thesis
    by (simp add: encodeSelection_def obj_get_def ToString_def preset_key_def)
qed

section \<open>Claims about the command sequencer\<close>

lemma elapse_open_gate: "elapse d (open_gate st) = open_gate st"
  by (simp add: elapse_def open_gate_def)

text \<open>The wait for the camera always ends, so neither activation stays pending.\<close>

lemma settle_and_switch_settles:
  "fst (settle_and_switch dev cameraId done_msg extra st es) \<noteq> Pending"
proof -
  have "monitorCameraStoppedPosition (Position_events dev cameraId) \<noteq> None"
    unfolding monitorCameraStoppedPosition_def by (rule monitor_resolves)
  then show ?thesis
    by (auto simp: settle_and_switch_def Let_def split: if_splits)
qed

lemma activateCameraPreset_settles:
  "fst (activateCameraPreset dev presetInfo cause st) \<noteq> Pending"
  by (simp add: activateCameraPreset_def Let_def settle_and_switch_settles)

text \<open>The two ways in which the call fails: the \<open>throw\<close> of the validation, and a rejected source switch.\<close>

lemma activateCameraPreset_fails:
  assumes "obj_get presetInfo ''CameraId'' = JUndefined \<or> obj_get presetInfo ''PresetId'' = JUndefined \<or>
     rejects dev (SetMainVideoSource (obj_get presetInfo ''CameraId''))"
  shows "fst (activateCameraPreset dev presetInfo cause st) \<noteq> Fulfilled"
  using assms
  by (auto simp: activateCameraPreset_def settle_and_switch_def Let_def split: option.splits)

lemma activateCameraPreset_not_fulfilled:
  "fst (activateCameraPreset dev presetInfo cause st) \<noteq> Fulfilled \<Longrightarrow>
   fst (snd (activateCameraPreset dev presetInfo cause st)) = open_gate st"
  by (auto simp: activateCameraPreset_def settle_and_switch_def Let_def
      split: option.splits if_splits)

text \<open>
  Claim C1. The claim says that a failing call of \<open>activateCameraPreset\<close> still schedules
  the gate to close. The code does not: when \<open>CameraId\<close> or \<open>PresetId\<close> is missing (the
  \<open>throw\<close> of the validation) or the device rejects \<open>SetMainVideoSource\<close>, the call does
  not return normally and leaves the gate set with the timeout cleared and no new one
  armed, so no amount of waiting closes the gate.
\<close>

theorem activateCameraPreset_failure_leaves_gate_open:
  assumes "obj_get presetInfo ''CameraId'' = JUndefined \<or> obj_get presetInfo ''PresetId'' = JUndefined \<or>
     rejects dev (SetMainVideoSource (obj_get presetInfo ''CameraId''))"
  shows "fst (activateCameraPreset dev presetInfo cause st) \<noteq> Fulfilled \<and>
     fst (snd (activateCameraPreset dev presetInfo cause st)) = open_gate st \<and>
     presetPositioningBypassHandler (fst (snd (activateCameraPreset dev presetInfo cause st))) = None \<and>
     (\<forall>d. presetPositioningBypass
            (elapse d (fst (snd (activateCameraPreset dev presetInfo cause st)))))"
proof -
  from assms have f: "fst (activateCameraPreset dev presetInfo cause st) \<noteq> Fulfilled"
    by (rule activateCameraPreset_fails)
  then have "fst (snd (activateCameraPreset dev presetInfo cause st)) = open_gate st"
    by (rule activateCameraPreset_not_fulfilled)
  with f show ?thesis by (simp add: elapse_open_gate) (simp add: open_gate_def)
qed

theorem activateCameraPreset_missing_CameraId:
  "obj_get [(''PresetId'', JNum 5)] ''CameraId'' = JUndefined \<and>
   activateCameraPreset example_env [(''PresetId'', JNum 5)] ''test'' initial_state
     = (Rejected Unable_to_set_Camera_Preset, open_gate initial_state,
        [Call SpeakerTrack_Deactivate, Call Frames_Deactivate, Call (PresenterTrack_Set ''Off'')]) \<and>
   presetPositioningBypassHandler (open_gate initial_state) = None \<and>
   presetPositioningBypass (elapse 3000 (open_gate initial_state)) \<and>
   presetPositioningBypass (elapse 3600000 (open_gate initial_state))"
  using activateCameraPreset_failure_leaves_gate_open
    [of "[(''PresetId'', JNum 5)]" example_env "''test''" initial_state]
  by (simp add: activateCameraPreset_def obj_get_def deactivate_tracking_def best_effort_def
      example_env_def open_gate_def)

lemma first_default_None:
  "first_default ps = None \<longleftrightarrow> (\<forall>p\<in>set ps. toLowerCase (DefaultPosition p) \<noteq> ''true'')"
  by (induction ps) auto

lemma deactivate_tracking_calls:
  "Call c \<in> set (deactivate_tracking dev cause) \<Longrightarrow>
   c = SpeakerTrack_Deactivate \<or> c = Frames_Deactivate \<or> c = PresenterTrack_Set ''Off''"
  by (auto simp: deactivate_tracking_def best_effort_def split: if_splits)

text \<open>
  Claim C6, as amended. When the catalog is delivered and none of its presets is the
  default, \<open>activateDefaultCameraPreset\<close> returns normally after the warning, issues the
  three tracking deactivations and the catalog query and nothing else (no preset is
  activated, the main source is not switched), and arms the timeout that closes the gate
  100 ms after the failsafe time.
\<close>

theorem no_default_preset:
  assumes "\<not> rejects dev Preset_List"
    and "\<forall>p\<in>set (Preset_List_result dev). toLowerCase (DefaultPosition p) \<noteq> ''true''"
  shows "activateDefaultCameraPreset dev cause st
         = (Fulfilled,
            schedule_close 100 ((open_gate st)\<lparr>availableCameraPresets := Preset_List_result dev\<rparr>),
            deactivate_tracking dev cause
            @ [Call Preset_List, Console Warn ''Unable to find Default Camera Preset'']) \<and>
         (\<forall>v. Call (Preset_Activate v) \<notin> set (snd (snd (activateDefaultCameraPreset dev cause st))) \<and>
              Call (SetMainVideoSource v) \<notin> set (snd (snd (activateDefaultCameraPreset dev cause st))))"
proof -
  from assms(2) have "first_default (Preset_List_result dev) = None"
    by (simp add: first_default_None)
  with assms(1) have eq: "activateDefaultCameraPreset dev cause st
         = (Fulfilled,
            schedule_close 100 ((open_gate st)\<lparr>availableCameraPresets := Preset_List_result dev\<rparr>),
            deactivate_tracking dev cause
            @ [Call Preset_List, Console Warn ''Unable to find Default Camera Preset''])"
    by (simp add: activateDefaultCameraPreset_def Let_def)
  show ?thesis
    unfolding eq using deactivate_tracking_calls [of _ dev cause] by auto
qed

lemma room_not_default: "toLowerCase (DefaultPosition room) \<noteq> ''true''"
  by (simp add: room_def toLowerCase_def lower_char_def)

theorem no_default_preset_witness:
  "\<not> rejects example_env Preset_List \<and>
   first_default (Preset_List_result example_env) = None \<and>
   activateDefaultCameraPreset example_env ''Call [Connected]'' initial_state
     = (Fulfilled,
        \<lparr>presetPositioningBypass = True, presetPositioningBypassHandler = Some 2600,
           lastPresetSelection = [], availableCameraPresets = [room],
           ManualPrompt_Dismiss = JStr ''Dismiss''\<rparr>,
        [Call SpeakerTrack_Deactivate, Call Frames_Deactivate, Call (PresenterTrack_Set ''Off''),
         Call Preset_List, Console Warn ''Unable to find Default Camera Preset''])"
  using no_default_preset [of example_env "''Call [Connected]''" initial_state]
  by (simp add: example_env_def room_not_default first_default_None deactivate_tracking_def best_effort_def
      schedule_close_def open_gate_def initial_state_def
      failsafeDebounceTime_for_MainSourceSetOnCameraRampStop_def)

text \<open>
  Claim C6 as stated fails: with a catalog that has no default preset the three tracking
  deactivations are issued all the same, before the catalog is even read.
\<close>

theorem no_default_preset_still_deactivates:
  "first_default (Preset_List_result example_env) = None \<and>
   snd (snd (activateDefaultCameraPreset example_env ''Call [Connected]'' initial_state))
     = [Call SpeakerTrack_Deactivate, Call Frames_Deactivate, Call (PresenterTrack_Set ''Off''),
        Call Preset_List, Console Warn ''Unable to find Default Camera Preset'']"
  by (simp add: activateDefaultCameraPreset_def example_env_def room_def toLowerCase_def
      lower_char_def deactivate_tracking_def best_effort_def Let_def)

section \<open>Claims about the selection reconciler\<close>

lemma CameraPosition_gate:
  "presetPositioningBypass (fst (CameraPosition dev ev st)) = presetPositioningBypass st"
  by (simp add: CameraPosition_def)

lemma elapse_inactive:
  "\<not> presetPositioningBypass st \<Longrightarrow> \<not> presetPositioningBypass (elapse d st)"
  by (simp add: elapse_def split: option.splits)

lemma elapse_last: "lastPresetSelection (elapse d st) = lastPresetSelection st"
  by (simp add: elapse_def split: option.splits)

text \<open>Neither a position event nor waiting activates the gate.\<close>

lemma gate_stays_inactive:
  "\<forall>e\<in>set evs. \<not> is_widget e \<Longrightarrow> \<not> presetPositioningBypass st \<Longrightarrow>
   \<not> presetPositioningBypass (fst (run_events evs st))"
proof (induction evs arbitrary: st)
  case Nil
  then show ?case by simp
next
  case (Cons e evs)
  have "\<not> presetPositioningBypass (fst (dispatch e st))"
  proof (cases e)
    case (Widget dev w t v)
    with Cons.prems(1) show ?thesis by simp
  next
    case (Position dev ev)
    with Cons.prems(2) show ?thesis by (simp add: CameraPosition_gate)
  next
    case (Wait d)
    with Cons.prems(2) show ?thesis by (simp add: elapse_inactive)
  qed
  with Cons.IH [of "fst (dispatch e st)"] Cons.prems(1) show ?case
    by (simp add: split_beta)
qed

lemma gate_active_throughout:
  "\<forall>e\<in>set evs. \<not> is_widget e \<Longrightarrow> presetPositioningBypass (fst (run_events evs st)) \<Longrightarrow>
   snd (run_events evs st) = [] \<and>
   lastPresetSelection (fst (run_events evs st)) = lastPresetSelection st"
proof (induction evs arbitrary: st)
  case Nil
  then show ?case by simp
next
  case (Cons e evs)
  from Cons.prems have rest: "\<forall>e\<in>set evs. \<not> is_widget e"
    and final: "presetPositioningBypass (fst (run_events evs (fst (dispatch e st))))"
    by (simp_all add: split_beta)
  from Cons.IH [OF rest final]
  have ih: "snd (run_events evs (fst (dispatch e st))) = []"
    "lastPresetSelection (fst (run_events evs (fst (dispatch e st))))
     = lastPresetSelection (fst (dispatch e st))"
    by simp_all
  have "snd (dispatch e st) = [] \<and> lastPresetSelection (fst (dispatch e st)) = lastPresetSelection st"
  proof (cases e)
    case (Widget dev w t v)
    with Cons.prems(1) show ?thesis by simp
  next
    case (Position dev ev)
    have "presetPositioningBypass st"
    proof (rule ccontr)
      assume "\<not> presetPositioningBypass st"
      then have "\<not> presetPositioningBypass (fst (dispatch e st))"
        using Position by (simp add: CameraPosition_gate)
      with rest have "\<not> presetPositioningBypass (fst (run_events evs (fst (dispatch e st))))"
        by (rule gate_stays_inactive)
      with final show False by simp
    qed
    with Position show ?thesis by (simp add: CameraPosition_def)
  next
    case (Wait d)
    then show ?thesis by (simp add: elapse_last)
  qed
  with ih show ?case by (simp add: split_beta)
qed

text \<open>
  Claim C4. While the gate is active, position events change nothing. After any sequence
  of position events delivered from a state with the gate active, the state (and with it
  the remembered selection) is the same and no command was issued, so nothing was pushed
  to the widget. With time passing between the events: if the gate is still active after
  the last one, it was active at each of them, the remembered selection is the same and no
  command was issued.
\<close>

theorem gate_suppresses_movement:
  "(presetPositioningBypass st \<and> (\<forall>e\<in>set evs. is_position e) \<longrightarrow> run_events evs st = (st, [])) \<and>
   ((\<forall>e\<in>set evs. \<not> is_widget e) \<and> presetPositioningBypass (fst (run_events evs st)) \<longrightarrow>
      snd (run_events evs st) = [] \<and>
      lastPresetSelection (fst (run_events evs st)) = lastPresetSelection st)"
proof (intro conjI impI)
  assume "presetPositioningBypass st \<and> (\<forall>e\<in>set evs. is_position e)"
  then show "run_events evs st = (st, [])"
  proof (induction evs)
    case Nil
    then show ?case by simp
  next
    case (Cons e evs)
    then obtain dev ev where "e = Position dev ev" by (cases e) auto
    with Cons show ?case by (simp add: CameraPosition_def)
  qed
next
  assume a: "(\<forall>e\<in>set evs. \<not> is_widget e) \<and> presetPositioningBypass (fst (run_events evs st))"
  then show "snd (run_events evs st) = []"
    using gate_active_throughout by blast
  from a show "lastPresetSelection (fst (run_events evs st)) = lastPresetSelection st"
    using gate_active_throughout by blast
qed

lemma two_moves_gate: "presetPositioningBypass (fst (run_events two_moves gate_active))"
  unfolding two_moves_def gate_active_def by code_simp

theorem gate_suppresses_movement_witness:
  "presetPositioningBypass (open_gate initial_state) \<and>
   run_events [Position example_env pan_event, Position widget_rejecting_env pan_event]
     (open_gate initial_state)
   = (open_gate initial_state, []) \<and>
   presetPositioningBypass (fst (run_events two_moves gate_active)) \<and>
   snd (run_events two_moves gate_active) = [] \<and>
   lastPresetSelection (fst (run_events two_moves gate_active)) = lastPresetSelection gate_active"
  using gate_suppresses_movement
    [of "open_gate initial_state" "[Position example_env pan_event, Position widget_rejecting_env pan_event]"]
    gate_suppresses_movement [of gate_active two_moves]
  by (simp add: two_moves_gate) (simp add: open_gate_def two_moves_def)

text \<open>
  Claim C10. A position event whose three components are zero changes neither the state
  nor the widget, whatever the gate is. The listener issues something only for an event
  with a truthy component, and only with the gate inactive; for numeric components,
  truthy means non-zero.
\<close>

theorem zero_position_event_ignored:
  "CameraPosition dev \<lparr>Pan = Some 0, Tilt = Some 0, Zoom = Some 0\<rparr> st = (st, []) \<and>
   (CameraPosition dev ev st \<noteq> (st, []) \<longrightarrow> \<not> no_movement ev \<and> \<not> presetPositioningBypass st) \<and>
   (no_movement \<lparr>Pan = Some p, Tilt = Some t, Zoom = Some z\<rparr> \<longleftrightarrow> p = 0 \<and> t = 0 \<and> z = 0)"
  by (auto simp: CameraPosition_def no_movement_def falsy_def)

theorem zero_position_event_ignored_witness:
  "CameraPosition example_env zero_event initial_state = (initial_state, []) \<and>
   CameraPosition example_env pan_event initial_state
     = (initial_state\<lparr>lastPresetSelection := manual_selection\<rparr>,
        [Call (Widget_SetValue ''Type:Automatic~Feature:Manual'')]) \<and>
   \<not> no_movement pan_event"
  using zero_position_event_ignored [of example_env initial_state pan_event 0 0 0]
  by (simp add: CameraPosition_def zero_event_def pan_event_def no_movement_def falsy_def
      initial_state_def example_env_def set_value_or_unset_def manual_key_def)

lemma set_value_or_log_no_unset: "Call Widget_UnsetValue \<notin> set (set_value_or_log dev v msg)"
  by (simp add: set_value_or_log_def)

lemma tracking_status_no_unset:
  "Call Widget_UnsetValue \<notin> set (snd (tracking_status element engaged msg dev event st))"
  by (simp add: tracking_status_def set_value_or_log_no_unset)

lemma parse_manual_key: "parseKeyValuePairs manual_key = manual_selection"
  unfolding manual_key_def manual_selection_def by code_simp

lemma includes_manual_key: "str_includes manual_key ''Manual''"
  unfolding manual_key_def by code_simp

lemma regex_test_manual_key: "regex_test manual_key"
  unfolding manual_key_def by code_simp

text \<open>What the widget handler does when the operator selects \<open>Manual\<close>.\<close>

lemma WidgetAction_manual:
  "WidgetAction dev widget_id ''released'' manual_key st =
     (Fulfilled,
      schedule_close 100 ((open_gate st)\<lparr>ManualPrompt_Dismiss := JUndefined\<rparr>),
      [Call (Prompt_Display (ManualPrompt_Dismiss st)),
       Console Log ''Manual Selection detected, prompting user on Manual Control'']
      @ set_value_or_unset dev (encodeSelection (NumberToString dev) (lastPresetSelection st)) Debug
          ''Failed to Set Widget Value. Cause: WidgetAction>data.Feature Manual'')"
  using regex_test_manual_key
  by (simp add: WidgetAction_def parse_manual_key includes_manual_key automatic_selected_def
      parse_error_log_def Let_def)
     (simp add: manual_selection_def obj_get_def open_gate_def)

text \<open>
  Claim C7. The claim says that on every reconciliation path a rejected \<open>SetValue\<close> is
  followed by \<open>UnsetValue\<close>. The code does so on two paths only: the position listener and
  the \<open>Manual\<close> branch of the widget handler. The listener of externally activated presets
  and the three tracking status listeners never issue \<open>UnsetValue\<close>, whatever the device
  answers; their \<open>catch\<close> only logs.
\<close>

theorem set_value_rejection_unset_on_two_paths_only:
  "Call Widget_UnsetValue \<notin> set (snd (snd (CameraPresetActivated dev presetId cameraId st))) \<and>
   Call Widget_UnsetValue \<notin> set (snd (CamerasPresenterTrackStatus dev event st)) \<and>
   Call Widget_UnsetValue \<notin> set (snd (CamerasSpeakerTrackStatus dev event st)) \<and>
   Call Widget_UnsetValue \<notin> set (snd (CamerasSpeakerTrackFramesStatus dev event st)) \<and>
   (rejects dev (Widget_SetValue manual_key) \<and> \<not> presetPositioningBypass st \<and> \<not> no_movement ev \<longrightarrow>
      Call Widget_UnsetValue \<in> set (snd (CameraPosition dev ev st))) \<and>
   (rejects dev (Widget_SetValue (encodeSelection (NumberToString dev) (lastPresetSelection st))) \<longrightarrow>
      Call Widget_UnsetValue \<in> set (snd (snd (WidgetAction dev widget_id ''released'' manual_key st))))"
proof (intro conjI impI)
  show "Call Widget_UnsetValue \<notin> set (snd (snd (CameraPresetActivated dev presetId cameraId st)))"
    by (simp add: CameraPresetActivated_def set_value_or_log_no_unset Let_def)
  show "Call Widget_UnsetValue \<notin> set (snd (CamerasPresenterTrackStatus dev event st))"
    by (simp add: CamerasPresenterTrackStatus_def tracking_status_no_unset)
  show "Call Widget_UnsetValue \<notin> set (snd (CamerasSpeakerTrackStatus dev event st))"
    by (simp add: CamerasSpeakerTrackStatus_def tracking_status_no_unset)
  show "Call Widget_UnsetValue \<notin> set (snd (CamerasSpeakerTrackFramesStatus dev event st))"
    by (simp add: CamerasSpeakerTrackFramesStatus_def tracking_status_no_unset)
next
  assume "rejects dev (Widget_SetValue manual_key) \<and> \<not> presetPositioningBypass st \<and> \<not> no_movement ev"
  then show "Call Widget_UnsetValue \<in> set (snd (CameraPosition dev ev st))"
    by (simp add: CameraPosition_def set_value_or_unset_def)
next
  assume "rejects dev (Widget_SetValue (encodeSelection (NumberToString dev) (lastPresetSelection st)))"
  then show "Call Widget_UnsetValue
      \<in> set (snd (snd (WidgetAction dev widget_id ''released'' manual_key st)))"
    by (simp add: WidgetAction_manual set_value_or_unset_def)
qed

theorem external_preset_push_rejected:
  "rejects widget_rejecting_env (Widget_SetValue ''Type:Preset~CameraId:2~PresetId:5~PresetName:Room'') \<and>
   snd (snd (CameraPresetActivated widget_rejecting_env 5 2 initial_state))
     = [Call (Preset_Show 5),
        Call (Widget_SetValue ''Type:Preset~CameraId:2~PresetId:5~PresetName:Room''),
        Console Debug ''Failed to Set Preset Widget Value on External Preset Selection''] \<and>
   snd (CamerasSpeakerTrackStatus widget_rejecting_env ''Active'' initial_state)
     = [Call (Widget_SetValue ''Type:Automatic~Feature:Speaker''),
        Console Debug ''Failed to Set Widget Value. Cause: SpeakerTrack.Status Subscription''] \<and>
   snd (CameraPosition widget_rejecting_env pan_event initial_state)
     = [Call (Widget_SetValue ''Type:Automatic~Feature:Manual''), Call Widget_UnsetValue,
        Console Error ''Failed to Set Widget Value. Cause: CameraPosition change'']"
  using set_value_rejection_unset_on_two_paths_only
    [of widget_rejecting_env 5 2 initial_state "''Active''" pan_event]
  by (simp add: CameraPresetActivated_def CameraPosition_def CamerasSpeakerTrackStatus_def
      tracking_status_def toLowerCase_def lower_char_def
      set_value_or_log_def set_value_or_unset_def
      widget_rejecting_env_def example_env_def initial_state_def open_gate_def pan_event_def
      no_movement_def falsy_def manual_key_def show_int_def show_digits.simps digit_char_def)

text \<open>
  Claim C8. A payload that the pattern of \<open>parseKeyValuePairs\<close> does not match parses to
  \<open>{Type: 'Error'}\<close>, and the widget handler issues no command for it and leaves the gate
  alone. But the claim also says that no state is changed, and the code stores the parsed
  payload before it looks at its type: unless the payload contains \<open>Manual\<close>, the
  remembered selection is overwritten with the error record.
\<close>

theorem malformed_payload_is_remembered:
  "\<not> regex_test v \<Longrightarrow>
   parseKeyValuePairs v = [(''Type'', JStr ''Error'')] \<and>
   WidgetAction dev widget_id ''released'' v st
     = (Fulfilled,
        (if str_includes v ''Manual'' then st
         else st\<lparr>lastPresetSelection := [(''Type'', JStr ''Error'')]\<rparr>),
        [Console Error ''Unable to parse data key value pair''])"
  by (simp add: WidgetAction_def parseKeyValuePairs_def parse_error_log_def obj_get_def Let_def)

lemma garbage_malformed: "\<not> regex_test ''garbage''"
  by code_simp

lemma garbage_no_manual: "\<not> str_includes ''garbage'' ''Manual''"
  by code_simp

theorem garbage_payload_forgets_speaker:
  "\<not> regex_test ''garbage'' \<and>
   lastPresetSelection speaker_selected
     = [(''Type'', JStr ''Automatic''), (''Feature'', JStr ''Speaker'')] \<and>
   WidgetAction example_env widget_id ''released'' ''garbage'' speaker_selected
     = (Fulfilled, speaker_selected\<lparr>lastPresetSelection := [(''Type'', JStr ''Error'')]\<rparr>,
        [Console Error ''Unable to parse data key value pair''])"
  using malformed_payload_is_remembered [of "''garbage''" example_env speaker_selected]
  by (simp add: garbage_malformed garbage_no_manual speaker_selected_def)

section \<open>The remembered selection\<close>












lemma activateCameraPreset_last:
  "lastPresetSelection (fst (snd (activateCameraPreset dev presetInfo cause st)))
   = lastPresetSelection st"
  by (simp add: activateCameraPreset_def settle_and_switch_def Let_def open_gate_def
      schedule_close_def split: option.splits)

lemma automatic_selected_last:
  "lastPresetSelection (fst (snd (automatic_selected dev data st))) = lastPresetSelection st"
  by (simp add: automatic_selected_def Let_def open_gate_def schedule_close_def
      split: jsval.splits)

text \<open>The only write of the widget handler to the remembered selection.\<close>

lemma WidgetAction_last:
  "lastPresetSelection (fst (snd (WidgetAction dev w t v st)))
   = (if t = ''released'' \<and> w = widget_id \<and> \<not> str_includes v ''Manual''
      then parseKeyValuePairs v else lastPresetSelection st)"
  by (simp add: WidgetAction_def Let_def split_beta activateCameraPreset_last
      automatic_selected_last)














section \<open>A preset with a numeric name\<close>

lemma str_includes_subset: "str_includes s p \<Longrightarrow> set p \<subseteq> set s"
proof (induction s)
  case Nil
  then show ?case by simp
next
  case (Cons c cs)
  from Cons.prems have "take (length p) (c # cs) = p \<or> str_includes cs p" by simp
  then show ?case
  proof
    assume "take (length p) (c # cs) = p"
    then have "set p = set (take (length p) (c # cs))" by simp
    then show ?thesis using set_take_subset [of "length p" "c # cs"] by simp
  next
    assume "str_includes cs p"
    with Cons.IH show ?thesis by auto
  qed
qed

lemma M_not_digit: "\<not> is_digit (CHR ''M'')"
  by (simp add: is_digit_def)

lemma show_int_no_M: "CHR ''M'' \<notin> set (show_int i)"
proof
  assume "CHR ''M'' \<in> set (show_int i)"
  then have "CHR ''M'' \<in> set (show_digits (- i)) \<or> CHR ''M'' \<in> set (show_digits i)"
    by (simp add: show_int_def split: if_splits)
  then have "is_digit (CHR ''M'')" using show_digits_set by blast
  with M_not_digit show False by simp
qed

lemma digit_name_key_no_Manual:
  assumes "all_digits (Name p)"
  shows "\<not> str_includes (preset_key p) ''Manual''"
proof
  assume "str_includes (preset_key p) ''Manual''"
  then have "set ''Manual'' \<subseteq> set (preset_key p)" by (rule str_includes_subset)
  moreover have "CHR ''M'' \<in> set ''Manual''" by simp
  ultimately have "CHR ''M'' \<in> set (preset_key p)" by (rule subsetD)
  then have "CHR ''M'' \<in> set (show_int (CameraId p)) \<or> CHR ''M'' \<in> set (show_int (PresetId p)) \<or>
      CHR ''M'' \<in> set (Name p)"
    by (simp add: preset_key_def)
  then have "CHR ''M'' \<in> set (Name p)" by (simp add: show_int_no_M)
  with assms have "is_digit (CHR ''M'')" by (simp add: all_digits_def list_all_iff)
  with M_not_digit show False by simp
qed

text \<open>
  Claim C3. The claim says that decoding a widget key and encoding it again reproduces
  the key. The \<open>Manual\<close> branch of the widget handler relies on it: it rebuilds the key of
  the remembered selection with the template that \<open>buildUserInterface\<close> wrote the key
  with, to select it again. For a preset whose name is made of decimal digits the code
  does not reproduce the key: \<open>parseKeyValuePairs\<close> turns the name into a number, and the
  key that is built and set to the widget carries the number in canonical form. It is the
  key of the preset only if the name was written in that form already.
\<close>

theorem digit_name_is_not_reproduced:
  assumes "\<bar>CameraId p\<bar> < 2 ^ 53" and "\<bar>PresetId p\<bar> < 2 ^ 53"
    and "all_digits (Name p)" and "int_of_digits (Name p) < 2 ^ 53"
  shows "encodeSelection (NumberToString dev) (parseKeyValuePairs (preset_key p))
           = preset_key (p\<lparr>Name := show_int (int_of_digits (Name p))\<rparr>) \<and>
         lastPresetSelection (fst (snd (WidgetAction dev widget_id ''released'' (preset_key p) st)))
           = parseKeyValuePairs (preset_key p) \<and>
         Call (Widget_SetValue (preset_key (p\<lparr>Name := show_int (int_of_digits (Name p))\<rparr>)))
           \<in> set (snd (snd (WidgetAction dev widget_id ''released'' manual_key
                               (fst (snd (WidgetAction dev widget_id ''released'' (preset_key p) st)))))) \<and>
         (encodeSelection (NumberToString dev) (parseKeyValuePairs (preset_key p)) = preset_key p
            \<longleftrightarrow> show_int (int_of_digits (Name p)) = Name p)"
proof -
  have e: "encodeSelection (NumberToString dev) (parseKeyValuePairs (preset_key p))
           = preset_key (p\<lparr>Name := show_int (int_of_digits (Name p))\<rparr>)"
    using assms by (rule encode_parse_digit_name)
  have l: "lastPresetSelection (fst (snd (WidgetAction dev widget_id ''released'' (preset_key p) st)))
           = parseKeyValuePairs (preset_key p)"
    using digit_name_key_no_Manual [OF assms(3)] by (simp add: WidgetAction_last)
  have m: "Call (Widget_SetValue (preset_key (p\<lparr>Name := show_int (int_of_digits (Name p))\<rparr>)))
           \<in> set (snd (snd (WidgetAction dev widget_id ''released'' manual_key
                               (fst (snd (WidgetAction dev widget_id ''released'' (preset_key p) st))))))"
    by (simp add: WidgetAction_manual set_value_or_unset_def l e)
  have c: "preset_key (p\<lparr>Name := show_int (int_of_digits (Name p))\<rparr>) = preset_key p
           \<longleftrightarrow> show_int (int_of_digits (Name p)) = Name p"
    by (simp add: preset_key_def)
  from e l m c show ?thesis by simp
qed

lemma preset_007_digits: "all_digits (Name preset_007) \<and> int_of_digits (Name preset_007) = 7"
  unfolding preset_007_def by code_simp

theorem preset_007_is_not_reselected:
  "all_digits (Name preset_007) \<and>
   preset_key preset_007 = ''Type:Preset~CameraId:2~PresetId:3~PresetName:007'' \<and>
   encodeSelection (NumberToString example_env) (parseKeyValuePairs (preset_key preset_007))
     = ''Type:Preset~CameraId:2~PresetId:3~PresetName:7'' \<and>
   Call (Widget_SetValue ''Type:Preset~CameraId:2~PresetId:3~PresetName:7'')
     \<in> set (snd (snd (WidgetAction example_env widget_id ''released'' manual_key
                         (fst (snd (WidgetAction example_env widget_id ''released''
                                      (preset_key preset_007) initial_state)))))) \<and>
   encodeSelection (NumberToString example_env) (parseKeyValuePairs (preset_key preset_007))
     \<noteq> preset_key preset_007"
proof -
  have k: "preset_key preset_007 = ''Type:Preset~CameraId:2~PresetId:3~PresetName:007''"
    unfolding preset_007_def by code_simp
  have c: "preset_key (preset_007\<lparr>Name := show_int (int_of_digits (Name preset_007))\<rparr>)
           = ''Type:Preset~CameraId:2~PresetId:3~PresetName:7''"
    unfolding preset_007_def by code_simp
  have b: "\<bar>CameraId preset_007\<bar> < 2 ^ 53" "\<bar>PresetId preset_007\<bar> < 2 ^ 53"
    "int_of_digits (Name preset_007) < 2 ^ 53"
    using preset_007_digits by (simp_all add: preset_007_def)
  from digit_name_is_not_reproduced [OF b(1,2) conjunct1 [OF preset_007_digits] b(3),
      of example_env initial_state]
  show ?thesis
    unfolding c using preset_007_digits by (simp add: k)
qed

end
